theory Spec2Isabelle
  imports Complex_Main "HOL-Library.Multiset"
begin

section \<open>Text primitives of the JavaScript runtime\<close>

text \<open>
  The pipeline of \<^verbatim>\<open>src/index.js\<close> works on JavaScript strings. They are modelled as
  \<^typ>\<open>string\<close> over the 7-bit ASCII alphabet: on that alphabet \<^verbatim>\<open>length\<close> counts
  characters, \<^verbatim>\<open>toUpperCase\<close> changes exactly the letters a-z, and the regular expression
  classes \<^verbatim>\<open>\s\<close>, \<^verbatim>\<open>\d\<close>, \<^verbatim>\<open>[A-Z]\<close>, \<^verbatim>\<open>[a-z]\<close> are the sets below.
  The three bullet glyphs of \<^verbatim>\<open>isListItem\<close> that lie outside ASCII can therefore not
  occur in a modelled line and have no alternative in the matchers.
\<close>

definition charCode :: "char \<Rightarrow> nat" where
  "charCode c = of_char c"

definition LF :: char where "LF = CHR 0x0A"
definition CR :: char where "CR = CHR 0x0D"
definition FF :: char where "FF = CHR 0x0C"

definition js_space :: "char \<Rightarrow> bool" where
  "js_space c \<longleftrightarrow> (9 \<le> charCode c \<and> charCode c \<le> 13) \<or> charCode c = 32"

definition lineTerminator :: "char \<Rightarrow> bool" where
  "lineTerminator c \<longleftrightarrow> charCode c = 10 \<or> charCode c = 13"

definition isDigit :: "char \<Rightarrow> bool" where
  "isDigit c \<longleftrightarrow> 48 \<le> charCode c \<and> charCode c \<le> 57"

definition isUpper :: "char \<Rightarrow> bool" where
  "isUpper c \<longleftrightarrow> 65 \<le> charCode c \<and> charCode c \<le> 90"

definition isLower :: "char \<Rightarrow> bool" where
  "isLower c \<longleftrightarrow> 97 \<le> charCode c \<and> charCode c \<le> 122"

text \<open>The two cases of an ASCII letter differ by 32, which is bit 5 of the code: it is set
  in the codes 97-122 of a-z and clear in the codes 65-90 of A-Z.\<close>

definition upperChar :: "char \<Rightarrow> char" where
  "upperChar c =
     (if isLower c
      then (case c of Char b0 b1 b2 b3 b4 b5 b6 b7 \<Rightarrow> Char b0 b1 b2 b3 b4 False b6 b7)
      else c)"

definition lowerChar :: "char \<Rightarrow> char" where
  "lowerChar c =
     (if isUpper c
      then (case c of Char b0 b1 b2 b3 b4 b5 b6 b7 \<Rightarrow> Char b0 b1 b2 b3 b4 True b6 b7)
      else c)"

definition toUpperCase :: "string \<Rightarrow> string" where
  "toUpperCase s = map upperChar s"

definition toLowerCase :: "string \<Rightarrow> string" where
  "toLowerCase s = map lowerChar s"

text \<open>\<^verbatim>\<open>String.prototype.trim\<close>: white space is removed at both ends.\<close>

definition trim :: "string \<Rightarrow> string" where
  "trim s = rev (dropWhile js_space (rev (dropWhile js_space s)))"

text \<open>
  \<^verbatim>\<open>s.split(/\r?\n/)\<close>: the pieces between line breaks; a carriage return counts only
  when a line feed follows it. The empty string splits into one empty piece.
\<close>

fun splitLines :: "string \<Rightarrow> string list" where
  "splitLines [] = [[]]"
| "splitLines [c] = (if c = LF then [[], []] else [[c]])"
| "splitLines (c # d # cs) =
     (if c = CR \<and> d = LF then [] # splitLines cs
      else if c = LF then [] # splitLines (d # cs)
      else (case splitLines (d # cs) of
              l # ls \<Rightarrow> (c # l) # ls
            | [] \<Rightarrow> [[c]]))"

text \<open>
  \<^verbatim>\<open>s.split(/\s+/)\<close>: the pieces between maximal runs of white space. A run at the
  start or the end of the string leaves an empty piece there.
\<close>

function splitWs :: "string \<Rightarrow> string list" where
  "splitWs [] = [[]]"
| "splitWs (c # cs) =
     (if js_space c then [] # splitWs (dropWhile js_space cs)
      else (case splitWs cs of
              w # ws \<Rightarrow> (c # w) # ws
            | [] \<Rightarrow> [[c]]))"
  by pat_completeness auto
termination
  by (relation "measure length") (auto simp: length_dropWhile_le less_Suc_eq_le)

text \<open>\<^verbatim>\<open>Array.prototype.join\<close>.\<close>

fun joinWith :: "string \<Rightarrow> string list \<Rightarrow> string" where
  "joinWith sep [] = []"
| "joinWith sep [x] = x"
| "joinWith sep (x # y # ys) = x @ sep @ joinWith sep (y # ys)"

text \<open>\<^verbatim>\<open>s.replace(/\n{3,}/g, '\n\n')\<close>: every run of three or more line feeds becomes two.\<close>

function collapseNewlines :: "string \<Rightarrow> string" where
  "collapseNewlines [] = []"
| "collapseNewlines (c # cs) =
     (if c = LF
      then (if 2 \<le> length (takeWhile (\<lambda>d. d = LF) cs)
            then [LF, LF]
            else c # takeWhile (\<lambda>d. d = LF) cs)
           @ collapseNewlines (dropWhile (\<lambda>d. d = LF) cs)
      else c # collapseNewlines cs)"
  by pat_completeness auto
termination
  by (relation "measure length") (auto simp: length_dropWhile_le less_Suc_eq_le)

subsection \<open>Regular expressions of the classifier\<close>

text \<open>\<^verbatim>\<open>/[.!?]$/\<close>, \<^verbatim>\<open>/:$/\<close>, \<^verbatim>\<open>/[.!?;]$/\<close>: the last character is in the class.\<close>

definition endsIn :: "string \<Rightarrow> string \<Rightarrow> bool" where
  "endsIn cls s \<longleftrightarrow> s \<noteq> [] \<and> last s \<in> set cls"

text \<open>\<^verbatim>\<open>\d+\<close> and \<^verbatim>\<open>\s+\<close> at the start of a string: what is left after the longest run,
  if the run has at least one character. A shorter run is always followed by a character
  of the same class, so backtracking into the run never helps the patterns below.\<close>

definition skipDigits1 :: "string \<Rightarrow> string option" where
  "skipDigits1 s = (if s \<noteq> [] \<and> isDigit (hd s) then Some (dropWhile isDigit s) else None)"

definition skipSpaces1 :: "string \<Rightarrow> string option" where
  "skipSpaces1 s = (if s \<noteq> [] \<and> js_space (hd s) then Some (dropWhile js_space s) else None)"

definition startsUpper :: "string \<Rightarrow> bool" where
  "startsUpper s \<longleftrightarrow> s \<noteq> [] \<and> isUpper (hd s)"

definition startsLower :: "string \<Rightarrow> bool" where
  "startsLower s \<longleftrightarrow> s \<noteq> [] \<and> isLower (hd s)"

text \<open>\<^verbatim>\<open>\s+[A-Z]\<close> at the start of a string.\<close>

definition spacesThenUpper :: "string \<Rightarrow> bool" where
  "spacesThenUpper r = (case skipSpaces1 r of Some t \<Rightarrow> startsUpper t | None \<Rightarrow> False)"

text \<open>What follows a match of \<^verbatim>\<open>(\d+\.|\d+\)|\-|\*)\<close> at the start of the line, one
  entry for each alternative that matches.\<close>

definition bulletRests :: "string \<Rightarrow> string list" where
  "bulletRests s =
     (case skipDigits1 s of
        Some (c # r) \<Rightarrow> if c = CHR ''.'' \<or> c = CHR '')'' then [r] else []
      | _ \<Rightarrow> [])
     @ (case s of
          c # r \<Rightarrow> if c = CHR ''-'' \<or> c = CHR ''*'' then [r] else []
        | [] \<Rightarrow> [])"

text \<open>What follows a match of \<^verbatim>\<open>([a-z]\.|[A-Z]\.)\<close> at the start of the line.\<close>

definition letterDotRests :: "string \<Rightarrow> string list" where
  "letterDotRests s =
     (case s of
        c # d # r \<Rightarrow> if (isLower c \<or> isUpper c) \<and> d = CHR ''.'' then [r] else []
      | _ \<Rightarrow> [])"

text \<open>\<^verbatim>\<open>/^\d+\.\s+[A-Z]/\<close>.\<close>

definition numberedPattern :: "string \<Rightarrow> bool" where
  "numberedPattern s =
     (case skipDigits1 s of
        Some (c # r) \<Rightarrow> c = CHR ''.'' \<and> spacesThenUpper r
      | _ \<Rightarrow> False)"

text \<open>\<^verbatim>\<open>/^[IVXLCDM]+\.\s+[A-Z]/\<close>.\<close>

definition isRoman :: "char \<Rightarrow> bool" where
  "isRoman c \<longleftrightarrow> c \<in> set ''IVXLCDM''"

definition romanPattern :: "string \<Rightarrow> bool" where
  "romanPattern s =
     (s \<noteq> [] \<and> isRoman (hd s) \<and>
      (case dropWhile isRoman s of
         c # r \<Rightarrow> c = CHR ''.'' \<and> spacesThenUpper r
       | [] \<Rightarrow> False))"

text \<open>A case-insensitive literal at the start of the line (flag \<^verbatim>\<open>i\<close> on \<^verbatim>\<open>^(a|b|...)\<close>).\<close>

definition startsWithCI :: "string \<Rightarrow> string \<Rightarrow> bool" where
  "startsWithCI s k \<longleftrightarrow> toLowerCase (take (length k) s) = k"

definition structuralKeywords :: "string list" where
  "structuralKeywords =
     [''chapter'', ''section'', ''part'', ''appendix'', ''introduction'', ''conclusion'',
      ''abstract'', ''summary'', ''overview'', ''background'']"

definition backMatterKeywords :: "string list" where
  "backMatterKeywords =
     [''table of contents'', ''references'', ''bibliography'', ''acknowledgments'']"

definition headerPatterns :: "(string \<Rightarrow> bool) list" where
  "headerPatterns =
     [\<lambda>line. list_ex (startsWithCI line) structuralKeywords,
      \<lambda>line. list_ex (startsWithCI line) backMatterKeywords,
      numberedPattern,
      romanPattern]"

section \<open>JavaScript numbers that occur in the statistics\<close>

text \<open>
  Line lengths and counts are non-negative integers; the statistics divide them, so the
  values are rationals, \<^verbatim>\<open>NaN\<close> (from \<^verbatim>\<open>0/0\<close> and from arithmetic on
  \<^verbatim>\<open>undefined\<close>) and \<^verbatim>\<open>Infinity\<close>. The comparisons of the classifier
  (\<^verbatim>\<open>length < median * 0.6\<close>, \<^verbatim>\<open>count >= words * 0.7\<close>, \<^verbatim>\<open>length > other * 1.5\<close>,
  \<^verbatim>\<open>score >= 2.5\<close>) have the same outcome in exact arithmetic as in double precision:
  the products by 1.5 and the sums of weights are exact, and a product by 0.6 or 0.7 is
  either rounded to the integer it equals exactly or lies at least a tenth away from every
  integer.
\<close>

datatype jsnum = NaN | Infinity | Num rat

fun divNum :: "nat \<Rightarrow> nat \<Rightarrow> jsnum" where
  "divNum a b = (if b = 0 then (if a = 0 then NaN else Infinity) else Num (of_nat a / of_nat b))"

fun timesNum :: "jsnum \<Rightarrow> rat \<Rightarrow> jsnum" where
  "timesNum NaN k = NaN"
| "timesNum Infinity k = Infinity"
| "timesNum (Num x) k = Num (x * k)"

text \<open>\<^verbatim>\<open>Math.min(x, k)\<close> for a finite \<open>k\<close>.\<close>

fun minNum :: "jsnum \<Rightarrow> rat \<Rightarrow> jsnum" where
  "minNum NaN k = NaN"
| "minNum Infinity k = Num k"
| "minNum (Num x) k = Num (min x k)"

text \<open>\<^verbatim>\<open>n < x\<close> for an integer \<open>n\<close>: false when \<open>x\<close> is \<^verbatim>\<open>NaN\<close>.\<close>

fun lessNum :: "nat \<Rightarrow> jsnum \<Rightarrow> bool" where
  "lessNum n NaN = False"
| "lessNum n Infinity = True"
| "lessNum n (Num x) = (of_nat n < x)"

text \<open>\<^verbatim>\<open>(a + b) / 2\<close>.\<close>

fun halfSum :: "jsnum \<Rightarrow> jsnum \<Rightarrow> jsnum" where
  "halfSum (Num a) (Num b) = Num ((a + b) / 2)"
| "halfSum NaN b = NaN"
| "halfSum (Num a) NaN = NaN"
| "halfSum Infinity NaN = NaN"
| "halfSum (Num a) Infinity = Infinity"
| "halfSum Infinity (Num b) = Infinity"
| "halfSum Infinity Infinity = Infinity"

text \<open>\<^verbatim>\<open>sorted[i]\<close> read as a number: a missing element is \<^verbatim>\<open>undefined\<close>, which
  arithmetic turns into \<^verbatim>\<open>NaN\<close>.\<close>

definition numAt :: "nat list \<Rightarrow> int \<Rightarrow> jsnum" where
  "numAt xs i = (if 0 \<le> i \<and> i < int (length xs) then Num (of_nat (xs ! nat i)) else NaN)"

section \<open>DocumentStats: \<^verbatim>\<open>TextStructureAnalyzer\<close>\<close>

record document_stats =
  avgLength :: jsnum
  medianLength :: jsnum
  sentenceEndingRatio :: jsnum
  colonEndingRatio :: jsnum
  totalLines :: nat

record analyzer =
  lines :: "string list"
  stats :: document_stats

text \<open>\<^verbatim>\<open>median(arr)\<close>: a sorted copy (numeric ascending comparator), the middle index, and
  the element there or the mean of the two central elements.\<close>

definition median :: "nat list \<Rightarrow> jsnum" where
  "median arr =
     (let sorted = sort arr;
          mid = int (length sorted) div 2
      in if length sorted mod 2 \<noteq> 0
         then numAt sorted mid
         else halfSum (numAt sorted (mid - 1)) (numAt sorted mid))"

definition analyzeDocument :: "string list \<Rightarrow> document_stats" where
  "analyzeDocument ls =
     (let lengths = map length ls;
          sentenceEndings = length (filter (endsIn ''.!?'') ls);
          colonEndings = length (filter (endsIn '':'') ls)
      in \<lparr> avgLength = divNum (sum_list lengths) (length lengths),
           medianLength = median lengths,
           sentenceEndingRatio = divNum sentenceEndings (length ls),
           colonEndingRatio = divNum colonEndings (length ls),
           totalLines = length ls \<rparr>)"

text \<open>The constructor: split on line breaks, trim every piece, drop the empty ones.\<close>

definition analyzerLines :: "string \<Rightarrow> string list" where
  "analyzerLines rawText = filter (\<lambda>l. l \<noteq> []) (map trim (splitLines rawText))"

definition TextStructureAnalyzer :: "string \<Rightarrow> analyzer" where
  "TextStructureAnalyzer rawText =
     \<lparr> lines = analyzerLines rawText, stats = analyzeDocument (analyzerLines rawText) \<rparr>"

section \<open>LineClassifier\<close>

datatype error = TypeError | ReadError | TransportError | WriteError | OcrFailed

definition endsWithPunctuation :: "string \<Rightarrow> bool" where
  "endsWithPunctuation line = endsIn ''.!?;'' line"

text \<open>\<^verbatim>\<open>/^[A-Z"'([]/\<close>.\<close>

definition startsWithCapital :: "string \<Rightarrow> bool" where
  "startsWithCapital line \<longleftrightarrow>
     line \<noteq> [] \<and> (isUpper (hd line) \<or> hd line \<in> set [CHR 0x22, CHR 0x27, CHR ''('', CHR ''[''])"

text \<open>\<^verbatim>\<open>/^(\d+\.|\d+\)|\-|\*|[a-z]\.|[A-Z]\.)\s+/\<close>.\<close>

definition isListItem :: "string \<Rightarrow> bool" where
  "isListItem line = list_ex (\<lambda>r. skipSpaces1 r \<noteq> None) (bulletRests line @ letterDotRests line)"

text \<open>The local \<^verbatim>\<open>isAllCaps\<close> of \<^verbatim>\<open>isHeaderLine\<close>.\<close>

definition isAllCaps :: "string \<Rightarrow> bool" where
  "isAllCaps line \<longleftrightarrow>
     line = toUpperCase line \<and> list_ex isUpper line \<and>
     1 < length (splitWs line) \<and> length (splitWs line) < 12"

text \<open>\<^verbatim>\<open>this.lines[i]\<close>: \<^verbatim>\<open>undefined\<close> outside the array.\<close>

definition lineAt :: "string list \<Rightarrow> int \<Rightarrow> string option" where
  "lineAt ls i = (if 0 \<le> i \<and> i < int (length ls) then Some (ls ! nat i) else None)"

text \<open>Factor 7: \<^verbatim>\<open>prevLine.length > line.length * 1.5 || nextLine.length > line.length * 1.5\<close>.
  Reading \<^verbatim>\<open>.length\<close> of \<^verbatim>\<open>undefined\<close> raises a TypeError; the right operand is only
  evaluated when the left one is false.\<close>

definition contextFactor :: "string option \<Rightarrow> string option \<Rightarrow> string \<Rightarrow> error + bool" where
  "contextFactor prevLine nextLine line =
     (case prevLine of
        None \<Rightarrow> Inl TypeError
      | Some p \<Rightarrow>
          if of_nat (length line) * (3 / 2 :: rat) < of_nat (length p) then Inr True
          else (case nextLine of
                  None \<Rightarrow> Inl TypeError
                | Some n \<Rightarrow> Inr (of_nat (length line) * (3 / 2 :: rat) < of_nat (length n))))"

text \<open>The array \<^verbatim>\<open>factors\<close>, in the order of the pushes; \<open>ctx\<close> is the outcome of factor 7.\<close>

definition headerFactors :: "document_stats \<Rightarrow> string \<Rightarrow> bool \<Rightarrow> rat list" where
  "headerFactors st line ctx =
     (let lengthThreshold = minNum (timesNum (medianLength st) (6 / 10)) 80;
          words = splitWs line;
          capitalizedWords = filter (\<lambda>w. startsUpper w \<and> 2 < length w) words;
          isTitleCase = (of_nat (length words) * (7 / 10 :: rat) \<le> of_nat (length capitalizedWords)
                         \<and> 2 \<le> length words \<and> length words < 15)
      in (if lessNum (length line) lengthThreshold then [1] else [])
       @ (if isAllCaps line then [2] else [])
       @ (if isTitleCase \<and> \<not> endsWithPunctuation line then [3 / 2] else [])
       @ (if \<not> endsWithPunctuation line \<and> length line < 100 then [1] else [])
       @ (if endsIn '':'' line then [2] else [])
       @ (if list_ex spacesThenUpper (bulletRests line) \<and> length line < 100 then [3 / 2] else [])
       @ (if ctx then [1 / 2] else [])
       @ (if list_ex (\<lambda>p. p line) headerPatterns then [2] else []))"

definition isHeaderLine :: "analyzer \<Rightarrow> string \<Rightarrow> int \<Rightarrow> error + bool" where
  "isHeaderLine an line index =
     (let prevLine = (if 0 < index then lineAt (lines an) (index - 1) else Some []);
          nextLine = (if index < int (length (lines an)) - 1
                      then lineAt (lines an) (index + 1) else Some [])
      in case contextFactor prevLine nextLine line of
           Inl e \<Rightarrow> Inl e
         | Inr ctx \<Rightarrow> Inr (5 / 2 \<le> sum_list (headerFactors (stats an) line ctx)))"

definition isContinuation :: "analyzer \<Rightarrow> string \<Rightarrow> error + bool" where
  "isContinuation an line =
     (if \<not> isListItem line \<and> startsLower line
      then (case isHeaderLine an line (- 1) of
              Inl e \<Rightarrow> Inl e
            | Inr h \<Rightarrow> Inr (\<not> h))
      else Inr False)"

section \<open>DocumentReconstructor: \<^verbatim>\<open>cleanNaturalText\<close>\<close>

datatype block_type = Paragraph | ListBlock | Header

record block =
  btype :: block_type
  blines :: "string list"
  level :: "nat option"

text \<open>The state of the loop: the array \<^verbatim>\<open>blocks\<close> and the open \<^verbatim>\<open>currentBlock\<close>.\<close>

record recon =
  blocks :: "block list"
  currentBlock :: block

definition emptyBlock :: "block_type \<Rightarrow> block" where
  "emptyBlock t = \<lparr> btype = t, blines = [], level = None \<rparr>"

definition headerLevel :: "string \<Rightarrow> nat" where
  "headerLevel line = (if length line < 30 then 1 else if length line < 60 then 2 else 3)"

text \<open>The local \<^verbatim>\<open>shouldMerge\<close>, with the short-circuit order of its three disjuncts.\<close>

definition shouldMerge :: "analyzer \<Rightarrow> string \<Rightarrow> string \<Rightarrow> error + bool" where
  "shouldMerge an lastLine line =
     (if \<not> endsWithPunctuation lastLine then Inr True
      else (case isContinuation an line of
              Inl e \<Rightarrow> Inl e
            | Inr c \<Rightarrow> Inr (c \<or> (length lastLine < 80 \<and> \<not> startsWithCapital line))))"

text \<open>One iteration of the \<^verbatim>\<open>for\<close> loop, for the line at index \<open>i\<close>.\<close>

definition processLine :: "analyzer \<Rightarrow> nat \<Rightarrow> recon \<Rightarrow> error + recon" where
  "processLine an i st =
     (let line = lines an ! i; cur = currentBlock st
      in case isHeaderLine an line (int i) of
           Inl e \<Rightarrow> Inl e
         | Inr True \<Rightarrow>
             Inr \<lparr> blocks = (if blines cur \<noteq> [] then blocks st @ [cur] else blocks st)
                             @ [\<lparr> btype = Header, blines = [line],
                                  level = Some (headerLevel line) \<rparr>],
                   currentBlock = emptyBlock Paragraph \<rparr>
         | Inr False \<Rightarrow>
             if isListItem line
             then (let st1 = (if btype cur = Paragraph \<and> blines cur \<noteq> []
                              then \<lparr> blocks = blocks st @ [cur],
                                     currentBlock = emptyBlock ListBlock \<rparr>
                              else st);
                       st2 = (if btype (currentBlock st1) \<noteq> ListBlock
                              then st1 \<lparr> currentBlock := emptyBlock ListBlock \<rparr>
                              else st1);
                       cur2 = currentBlock st2
                   in Inr (st2 \<lparr> currentBlock := cur2 \<lparr> blines := blines cur2 @ [line] \<rparr> \<rparr>))
             else (let st1 = (if btype cur = ListBlock \<and> blines cur \<noteq> []
                              then \<lparr> blocks = blocks st @ [cur],
                                     currentBlock = emptyBlock Paragraph \<rparr>
                              else st);
                       cur1 = currentBlock st1
                   in if blines cur1 \<noteq> []
                      then (case shouldMerge an (last (blines cur1)) line of
                              Inl e \<Rightarrow> Inl e
                            | Inr m \<Rightarrow>
                                Inr (st1 \<lparr> currentBlock := cur1 \<lparr> blines :=
                                       (if m
                                        then butlast (blines cur1)
                                             @ [last (blines cur1) @ '' '' @ line]
                                        else blines cur1 @ [line]) \<rparr> \<rparr>))
                      else Inr (st1 \<lparr> currentBlock := cur1 \<lparr> blines := blines cur1 @ [line] \<rparr> \<rparr>)))"

text \<open>\<^verbatim>\<open>for (let i = 0; i < lines.length; i++)\<close>, from index \<open>i\<close> on.\<close>

function reconstructLoop :: "analyzer \<Rightarrow> nat \<Rightarrow> recon \<Rightarrow> error + recon" where
  "reconstructLoop an i st =
     (if i < length (lines an)
      then (case processLine an i st of
              Inl e \<Rightarrow> Inl e
            | Inr st' \<Rightarrow> reconstructLoop an (Suc i) st')
      else Inr st)"
  by pat_completeness auto
termination
  by (relation "measure (\<lambda>(an, i, st). length (lines an) - i)") auto

declare reconstructLoop.simps [simp del]

text \<open>The blocks after the loop and the final push of a non-empty open block.\<close>

definition finalBlocks :: "recon \<Rightarrow> block list" where
  "finalBlocks st =
     (if blines (currentBlock st) \<noteq> [] then blocks st @ [currentBlock st] else blocks st)"

definition initialRecon :: recon where
  "initialRecon = \<lparr> blocks = [], currentBlock = emptyBlock Paragraph \<rparr>"

definition assembleBlocks :: "analyzer \<Rightarrow> error + block list" where
  "assembleBlocks an =
     (case reconstructLoop an 0 initialRecon of
        Inl e \<Rightarrow> Inl e
      | Inr st \<Rightarrow> Inr (finalBlocks st))"

text \<open>Rendering of one block. \<^verbatim>\<open>'#'.repeat(undefined)\<close> is the empty string;
  \<^verbatim>\<open>block.lines[0].toUpperCase()\<close> raises a TypeError when there is no first line.\<close>

definition renderBlock :: "block \<Rightarrow> error + string" where
  "renderBlock b =
     (case btype b of
        Header \<Rightarrow>
          (let hashes = replicate (case level b of Some n \<Rightarrow> n | None \<Rightarrow> 0) CHR ''#''
           in case blines b of
                [] \<Rightarrow> Inl TypeError
              | l # _ \<Rightarrow> Inr ([LF] @ hashes @ '' '' @ toUpperCase l @ '' '' @ hashes @ [LF]))
      | ListBlock \<Rightarrow> Inr (joinWith [LF] (blines b))
      | Paragraph \<Rightarrow> Inr (joinWith '' '' (blines b)))"

fun renderBlocks :: "block list \<Rightarrow> error + string list" where
  "renderBlocks [] = Inr []"
| "renderBlocks (b # bs) =
     (case renderBlock b of
        Inl e \<Rightarrow> Inl e
      | Inr r \<Rightarrow> (case renderBlocks bs of
                    Inl e \<Rightarrow> Inl e
                  | Inr rs \<Rightarrow> Inr (r # rs)))"

text \<open>\<^verbatim>\<open>cleanNaturalText(rawText)\<close>; \<open>None\<close> stands for \<^verbatim>\<open>null\<close> and
  \<^verbatim>\<open>undefined\<close>. The guard \<^verbatim>\<open>if (!rawText) return ""\<close> takes these and the empty
  string.\<close>

definition cleanNaturalText :: "string option \<Rightarrow> error + string" where
  "cleanNaturalText rawText =
     (case rawText of
        None \<Rightarrow> Inr []
      | Some raw \<Rightarrow>
          if raw = [] then Inr []
          else (case assembleBlocks (TextStructureAnalyzer raw) of
                  Inl e \<Rightarrow> Inl e
                | Inr bs \<Rightarrow>
                    (case renderBlocks bs of
                       Inl e \<Rightarrow> Inl e
                     | Inr rendered \<Rightarrow>
                         Inr (trim (collapseNewlines (joinWith [LF, LF] rendered))))))"

section \<open>ArtifactCleaner and page filter: \<^verbatim>\<open>cleanPages\<close>\<close>

definition MIN_CHARS_PER_PAGE :: nat where
  "MIN_CHARS_PER_PAGE = 50"

text \<open>
  \<^verbatim>\<open>s.replace(re, '')\<close> with the flag \<^verbatim>\<open>g\<close>, for an expression that never matches the
  empty string. The matcher \<open>m\<close> is given the character before the position (for the
  anchor \<^verbatim>\<open>^\<close>) and the rest of the string, and answers the length of the match that
  starts there. \<open>k\<close> counts the characters of the current match that are still to be
  dropped; the scan resumes behind the match.
\<close>

fun removeAll :: "(char option \<Rightarrow> string \<Rightarrow> nat option) \<Rightarrow> char option \<Rightarrow> nat \<Rightarrow> string \<Rightarrow> string"
  where
  "removeAll m prev k [] = []"
| "removeAll m prev k (c # cs) =
     (if 0 < k then removeAll m (Some c) (k - 1) cs
      else (case m prev (c # cs) of
              Some (Suc n) \<Rightarrow> removeAll m (Some c) n cs
            | _ \<Rightarrow> c # removeAll m (Some c) 0 cs))"

text \<open>\<^verbatim>\<open>/Page \d+ of \d+/gi\<close>: the blanks are literal spaces.\<close>

definition pageOfMatch :: "char option \<Rightarrow> string \<Rightarrow> nat option" where
  "pageOfMatch prev s =
     (if startsWithCI s ''page ''
      then (case skipDigits1 (drop 5 s) of
              Some r \<Rightarrow>
                if startsWithCI r '' of ''
                then (case skipDigits1 (drop 4 r) of
                        Some t \<Rightarrow> Some (length s - length t)
                      | None \<Rightarrow> None)
                else None
            | None \<Rightarrow> None)
      else None)"

text \<open>With the flag \<^verbatim>\<open>m\<close>, \<^verbatim>\<open>^\<close> holds at the start of the text and behind a line
  terminator, and \<^verbatim>\<open>$\<close> holds at the end of the text and in front of a line terminator.\<close>

definition atLineStart :: "char option \<Rightarrow> bool" where
  "atLineStart prev = (case prev of None \<Rightarrow> True | Some c \<Rightarrow> lineTerminator c)"

text \<open>The largest \<open>k\<close> below the length of the run with a line terminator at position \<open>k\<close>.\<close>

fun lastLineEnd :: "string \<Rightarrow> nat option" where
  "lastLineEnd [] = None"
| "lastLineEnd (c # cs) =
     (case lastLineEnd cs of
        Some k \<Rightarrow> Some (Suc k)
      | None \<Rightarrow> if lineTerminator c then Some 0 else None)"

text \<open>A greedy run followed by \<^verbatim>\<open>$\<close>: the longest prefix of the run behind which
  \<^verbatim>\<open>$\<close> holds. \<open>after\<close> is the text behind the whole run; its first character is not
  in the class of the run and in particular no line terminator.\<close>

definition runToLineEnd :: "string \<Rightarrow> string \<Rightarrow> nat option" where
  "runToLineEnd run after = (if after = [] then Some (length run) else lastLineEnd run)"

text \<open>\<^verbatim>\<open>/^\d+\s*$/gm\<close>.\<close>

definition loneNumberMatch :: "char option \<Rightarrow> string \<Rightarrow> nat option" where
  "loneNumberMatch prev s =
     (if atLineStart prev
      then (case skipDigits1 s of
              Some r \<Rightarrow>
                (case runToLineEnd (takeWhile js_space r) (dropWhile js_space r) of
                   Some k \<Rightarrow> Some (length s - length r + k)
                 | None \<Rightarrow> None)
            | None \<Rightarrow> None)
      else None)"

text \<open>\<^verbatim>\<open>/^[\s\-_]+$/gm\<close>.\<close>

definition ruleChar :: "char \<Rightarrow> bool" where
  "ruleChar c \<longleftrightarrow> js_space c \<or> c = CHR ''-'' \<or> c = CHR ''_''"

definition ruleLineMatch :: "char option \<Rightarrow> string \<Rightarrow> nat option" where
  "ruleLineMatch prev s =
     (if atLineStart prev
      then (case runToLineEnd (takeWhile ruleChar s) (dropWhile ruleChar s) of
              Some (Suc k) \<Rightarrow> Some (Suc k)
            | _ \<Rightarrow> None)
      else None)"

text \<open>The four replacements of \<^verbatim>\<open>cleanPages\<close>, in their order.\<close>

definition stripArtifacts :: "string \<Rightarrow> string" where
  "stripArtifacts cleaned =
     removeAll ruleLineMatch None 0
       (removeAll loneNumberMatch None 0
          (removeAll pageOfMatch None 0
             (filter (\<lambda>c. c \<noteq> FF) cleaned)))"

text \<open>A page as the extractors return it, \<^verbatim>\<open>{page, text}\<close>, and as \<^verbatim>\<open>cleanPages\<close>
  returns it, \<^verbatim>\<open>{pageNumber, text}\<close>. The field \<^verbatim>\<open>text\<close> is \<open>pageText\<close> in the first and
  \<open>outText\<close> in the second.\<close>

record raw_page =
  page :: nat
  pageText :: string

record out_page =
  pageNumber :: nat
  outText :: string

definition cleanPage :: "nat \<Rightarrow> raw_page \<Rightarrow> error + out_page" where
  "cleanPage idx p =
     (case cleanNaturalText (Some (pageText p)) of
        Inl e \<Rightarrow> Inl e
      | Inr cleaned \<Rightarrow> Inr \<lparr> pageNumber = idx + 1, outText = stripArtifacts cleaned \<rparr>)"

text \<open>\<^verbatim>\<open>pages.map((page, idx) => ...)\<close>, from array position \<open>idx\<close> on.\<close>

fun cleanEach :: "nat \<Rightarrow> raw_page list \<Rightarrow> error + out_page list" where
  "cleanEach idx [] = Inr []"
| "cleanEach idx (p # ps) =
     (case cleanPage idx p of
        Inl e \<Rightarrow> Inl e
      | Inr q \<Rightarrow> (case cleanEach (Suc idx) ps of
                    Inl e \<Rightarrow> Inl e
                  | Inr qs \<Rightarrow> Inr (q # qs)))"

definition cleanPages :: "raw_page list \<Rightarrow> error + out_page list" where
  "cleanPages ps =
     (case cleanEach 0 ps of
        Inl e \<Rightarrow> Inl e
      | Inr qs \<Rightarrow> Inr (filter (\<lambda>q. MIN_CHARS_PER_PAGE \<le> length (trim (outText q))) qs))"

section \<open>ExtractionStrategy\<close>

text \<open>
  The collaborators are inputs of the model. \<open>getText\<close> is the outcome of reading and
  parsing the document (\<^verbatim>\<open>readFileSync\<close>, \<^verbatim>\<open>parser.getText()\<close>); \<open>submit\<close> is the outcome
  of reading and posting it to the OCR backend; \<open>poll file n\<close> is the answer to the
  \<open>n\<close>-th status request for the document; \<open>canWrite\<close> tells whether a write to a path
  of the output directory succeeds. All are indexed by the file name.
\<close>

record parser_result =
  pages :: "string option list option"
  fullText :: "string option"

record ocr_page =
  reportedPageNumber :: nat
  content :: "string list"

datatype poll_reply = PollThrows | PollData string "ocr_page list option"

record env =
  ocrOverride :: bool
  getText :: "string \<Rightarrow> error + parser_result"
  submit :: "string \<Rightarrow> error + unit"
  poll :: "string \<Rightarrow> nat \<Rightarrow> poll_reply"
  canWrite :: "string \<Rightarrow> bool"

text \<open>\<^verbatim>\<open>s.split("\f")\<close>.\<close>

fun splitChar :: "char \<Rightarrow> string \<Rightarrow> string list" where
  "splitChar sep [] = [[]]"
| "splitChar sep (c # cs) =
     (if c = sep then [] # splitChar sep cs
      else (case splitChar sep cs of
              l # ls \<Rightarrow> (c # l) # ls
            | [] \<Rightarrow> [[c]]))"

text \<open>\<^verbatim>\<open>arr.map((x, i) => ({ page: i + 1, text: f(x) }))\<close>, from position \<open>i\<close> on.\<close>

fun numberPages :: "nat \<Rightarrow> string list \<Rightarrow> raw_page list" where
  "numberPages i [] = []"
| "numberPages i (t # ts) = \<lparr> page = i + 1, pageText = t \<rparr> # numberPages (Suc i) ts"

definition extractPdfParse :: "env \<Rightarrow> string \<Rightarrow> error + raw_page list" where
  "extractPdfParse e file =
     (case getText e file of
        Inl err \<Rightarrow> Inl err
      | Inr result \<Rightarrow>
          (case pages result of
             Some (p # ps) \<Rightarrow>
               Inr (numberPages 0 (map (\<lambda>t. case t of Some s \<Rightarrow> s | None \<Rightarrow> []) (p # ps)))
           | _ \<Rightarrow>
               (case fullText result of
                  None \<Rightarrow> Inl TypeError
                | Some t \<Rightarrow>
                    Inr (filter (\<lambda>p. trim (pageText p) \<noteq> []) (numberPages 0 (splitChar FF t))))))"

text \<open>
  The polling loop of \<^verbatim>\<open>extractAzure\<close> in \<^verbatim>\<open>src/index.js\<close>:
  \<^verbatim>\<open>while (!result) { await sleep(1500); poll = await axios.get(...);
  if (poll.data.status === "succeeded") result = poll.data; }\<close>.
  The loop has no bound, so the result is optional: \<open>None\<close> is a loop that never ends.
\<close>

partial_function (option) pollUntilSucceeded ::
  "(nat \<Rightarrow> poll_reply) \<Rightarrow> nat \<Rightarrow> (error + ocr_page list option) option" where
  "pollUntilSucceeded replies n =
     (case replies n of
        PollThrows \<Rightarrow> Some (Inl TransportError)
      | PollData status payload \<Rightarrow>
          if status = ''succeeded'' then Some (Inr payload)
          else pollUntilSucceeded replies (Suc n))"

text \<open>\<^verbatim>\<open>result.analyzeResult.pages.map(page => ({ page: page.pageNumber,
  text: page.lines.map(l => l.content).join("\n") }))\<close>; a reply without the page array
  raises a TypeError.\<close>

definition assemblePages :: "ocr_page list option \<Rightarrow> error + raw_page list" where
  "assemblePages payload =
     (case payload of
        None \<Rightarrow> Inl TypeError
      | Some ps \<Rightarrow>
          Inr (map (\<lambda>p. \<lparr> page = reportedPageNumber p, pageText = joinWith [LF] (content p) \<rparr>) ps))"

definition extractAzure :: "env \<Rightarrow> string \<Rightarrow> (error + raw_page list) option" where
  "extractAzure e file =
     (case submit e file of
        Inl err \<Rightarrow> Some (Inl err)
      | Inr _ \<Rightarrow>
          (case pollUntilSucceeded (poll e file) 0 of
             None \<Rightarrow> None
           | Some (Inl err) \<Rightarrow> Some (Inl err)
           | Some (Inr payload) \<Rightarrow> Some (assemblePages payload)))"

text \<open>\<^verbatim>\<open>pages.some(p => p.text.length >= MIN_CHARS_PER_PAGE)\<close>.\<close>

definition usable :: "raw_page list \<Rightarrow> bool" where
  "usable ps = list_ex (\<lambda>p. MIN_CHARS_PER_PAGE \<le> length (pageText p)) ps"

section \<open>BatchOrchestrator: \<^verbatim>\<open>processSinglePDF\<close> and \<^verbatim>\<open>runQueue\<close>\<close>

text \<open>
  The transcript is kept as data (document, method, cleaned pages) instead of the text
  that \<^verbatim>\<open>processSinglePDF\<close> formats from it; an error record holds the error. A run of
  \<^verbatim>\<open>processSinglePDF\<close> yields the writes it made and how its promise settled.
\<close>

datatype artifact = Transcript string string "out_page list" | ErrorRecord error

datatype completion = Returned | Rejected error

type_synonym file_write = "string \<times> artifact"

text \<open>\<^verbatim>\<open>s.replace(lit, "")\<close> for a non-empty literal: the first occurrence is removed.\<close>

fun removeFirst :: "string \<Rightarrow> string \<Rightarrow> string" where
  "removeFirst lit [] = []"
| "removeFirst lit (c # cs) =
     (if take (length lit) (c # cs) = lit then drop (length lit) (c # cs)
      else c # removeFirst lit cs)"

definition OUTPUT_DIR :: string where
  "OUTPUT_DIR = ''./output''"

definition transcriptPath :: "string \<Rightarrow> string" where
  "transcriptPath file = OUTPUT_DIR @ ''/'' @ removeFirst ''.pdf'' file @ ''.txt''"

definition errorPath :: "string \<Rightarrow> string" where
  "errorPath file = OUTPUT_DIR @ ''/'' @ removeFirst ''.pdf'' file @ ''.error.txt''"

text \<open>The \<^verbatim>\<open>catch\<close> block: the write of the error record is not guarded.\<close>

definition handleFailure :: "env \<Rightarrow> string \<Rightarrow> error \<Rightarrow> file_write list \<times> completion" where
  "handleFailure e file err =
     (if canWrite e (errorPath file)
      then ([(errorPath file, ErrorRecord err)], Returned)
      else ([], Rejected WriteError))"

text \<open>The \<^verbatim>\<open>try\<close> block from \<^verbatim>\<open>cleanPages(pages)\<close> on.\<close>

definition writeTranscript ::
  "env \<Rightarrow> string \<Rightarrow> string \<Rightarrow> raw_page list \<Rightarrow> file_write list \<times> completion" where
  "writeTranscript e file method ps =
     (case cleanPages ps of
        Inl err \<Rightarrow> handleFailure e file err
      | Inr cleanedPages \<Rightarrow>
          if canWrite e (transcriptPath file)
          then ([(transcriptPath file, Transcript file method cleanedPages)], Returned)
          else handleFailure e file WriteError)"

text \<open>The branch \<^verbatim>\<open>pages = await extractAzure(pdfPath); method = "azure"\<close> and what
  follows it.\<close>

definition viaOcr :: "env \<Rightarrow> string \<Rightarrow> (file_write list \<times> completion) option" where
  "viaOcr e file =
     (case extractAzure e file of
        None \<Rightarrow> None
      | Some (Inl err) \<Rightarrow> Some (handleFailure e file err)
      | Some (Inr ocrPages) \<Rightarrow> Some (writeTranscript e file ''azure'' ocrPages))"

definition processSinglePDF :: "env \<Rightarrow> string \<Rightarrow> (file_write list \<times> completion) option" where
  "processSinglePDF e file =
     (case extractPdfParse e file of
        Inl err \<Rightarrow> Some (handleFailure e file err)
      | Inr ps \<Rightarrow>
          if \<not> usable ps \<or> ocrOverride e
          then viaOcr e file
          else Some (writeTranscript e file ''pdf-parse'' ps))"

text \<open>
  \<^verbatim>\<open>runQueue(items, limit, worker)\<close>. The workers are cooperative tasks of one thread:
  each takes the head of the shared queue, runs the worker on it to the end, and takes
  the next. The tasks are identical, so the state of the pool is the number \<open>live\<close> of
  tasks still in their loop, and whatever the interleaving the items are taken in queue
  order for as long as a task is left in its loop. A task whose call rejects or never
  returns takes no further item. The writes are listed in queue order; an empty item is
  skipped (\<^verbatim>\<open>if (item)\<close>). A rejection also rejects \<^verbatim>\<open>Promise.all\<close>, which the
  script does not handle; the results below use the pool only where no call rejects or
  where there is a single worker, so they do not depend on what the runtime does with
  the other workers then.
\<close>

fun drainQueue ::
  "(string \<Rightarrow> (file_write list \<times> completion) option) \<Rightarrow> nat \<Rightarrow> string list \<Rightarrow> file_write list" where
  "drainQueue worker live [] = []"
| "drainQueue worker live (item # queue) =
     (if live = 0 then []
      else if item = [] then drainQueue worker live queue
      else (case worker item of
              Some (ws, Returned) \<Rightarrow> ws @ drainQueue worker live queue
            | Some (ws, Rejected err) \<Rightarrow> ws @ drainQueue worker (live - 1) queue
            | None \<Rightarrow> drainQueue worker (live - 1) queue))"

definition runQueue ::
  "string list \<Rightarrow> nat \<Rightarrow> (string \<Rightarrow> (file_write list \<times> completion) option) \<Rightarrow> file_write list" where
  "runQueue items limit worker = drainQueue worker limit items"

section \<open>The revision of the pipeline in \<^verbatim>\<open>src/unnamed/part_000\<close>\<close>

text \<open>
  The second revision of the same script differs from \<^verbatim>\<open>src/index.js\<close> in the places
  modelled here: the median is computed inside \<^verbatim>\<open>analyzeDocument\<close> and is 0 for a
  document without lines; \<^verbatim>\<open>isHeaderLine\<close> has other factors and the threshold 4; the
  local result is usable when more than half of the pages have enough trimmed text; the
  polling loop stops on the status \<^verbatim>\<open>failed\<close>; the processed pages keep the field
  \<^verbatim>\<open>page\<close> and are kept when their text has more than 10 characters. Its definitions
  carry the suffix \<open>_part0\<close>.
\<close>

definition analyzeDocument_part0 :: "string list \<Rightarrow> jsnum" where
  "analyzeDocument_part0 ls =
     (let lengths = map length ls
      in if length lengths = 0 then Num 0
         else (let sorted = sort lengths;
                   mid = int (length sorted) div 2
               in if length sorted mod 2 \<noteq> 0
                  then numAt sorted mid
                  else halfSum (numAt sorted (mid - 1)) (numAt sorted mid)))"






text \<open>\<^verbatim>\<open>x > k\<close> for a number \<open>x\<close>: false when \<open>x\<close> is \<^verbatim>\<open>NaN\<close>.\<close>

fun greaterNum :: "jsnum \<Rightarrow> rat \<Rightarrow> bool" where
  "greaterNum NaN k = False"
| "greaterNum Infinity k = True"
| "greaterNum (Num x) k = (k < x)"

text \<open>\<^verbatim>\<open>pages.filter(p => p.text.trim().length >= MIN_CHARS_PER_PAGE).length
  / pages.length > 0.5\<close>.\<close>

definition usable_part0 :: "raw_page list \<Rightarrow> bool" where
  "usable_part0 ps =
     greaterNum
       (divNum (length (filter (\<lambda>p. MIN_CHARS_PER_PAGE \<le> length (trim (pageText p))) ps))
          (length ps))
       (1 / 2)"

definition extractPdfParse_part0 :: "env \<Rightarrow> string \<Rightarrow> error + raw_page list" where
  "extractPdfParse_part0 e file =
     (case getText e file of
        Inl err \<Rightarrow> Inl err
      | Inr result \<Rightarrow>
          (case pages result of
             Some ps \<Rightarrow>
               Inr (numberPages 0 (map (\<lambda>t. case t of Some s \<Rightarrow> s | None \<Rightarrow> []) ps))
           | None \<Rightarrow>
               (case fullText result of
                  None \<Rightarrow> Inl TypeError
                | Some t \<Rightarrow> Inr (numberPages 0 (splitChar FF t)))))"

text \<open>The polling loop of the second (effective) declaration of \<^verbatim>\<open>extractAzure\<close>:
  \<^verbatim>\<open>while (true) { poll = await axios.get(...);
  if (poll.data.status === "succeeded") { result = poll.data; break; }
  if (poll.data.status === "failed") throw new Error("Azure OCR Failed");
  await sleep(2000); }\<close>.\<close>

partial_function (option) pollUntilDone_part0 ::
  "(nat \<Rightarrow> poll_reply) \<Rightarrow> nat \<Rightarrow> (error + ocr_page list option) option" where
  "pollUntilDone_part0 replies n =
     (case replies n of
        PollThrows \<Rightarrow> Some (Inl TransportError)
      | PollData status payload \<Rightarrow>
          if status = ''succeeded'' then Some (Inr payload)
          else if status = ''failed'' then Some (Inl OcrFailed)
          else pollUntilDone_part0 replies (Suc n))"

definition extractAzure_part0 :: "env \<Rightarrow> string \<Rightarrow> (error + raw_page list) option" where
  "extractAzure_part0 e file =
     (case submit e file of
        Inl err \<Rightarrow> Some (Inl err)
      | Inr _ \<Rightarrow>
          (case pollUntilDone_part0 (poll e file) 0 of
             None \<Rightarrow> None
           | Some (Inl err) \<Rightarrow> Some (Inl err)
           | Some (Inr payload) \<Rightarrow> Some (assemblePages payload)))"

text \<open>The extraction step of \<^verbatim>\<open>processSinglePDF\<close> in the revision: the method and the
  pages that go on to processing, or the error that its \<^verbatim>\<open>catch\<close> block receives.\<close>

definition viaOcr_part0 :: "env \<Rightarrow> string \<Rightarrow> (error + string \<times> raw_page list) option" where
  "viaOcr_part0 e file =
     (case extractAzure_part0 e file of
        None \<Rightarrow> None
      | Some (Inl err) \<Rightarrow> Some (Inl err)
      | Some (Inr ocrPages) \<Rightarrow> Some (Inr (''azure'', ocrPages)))"

definition extraction_part0 :: "env \<Rightarrow> string \<Rightarrow> (error + string \<times> raw_page list) option" where
  "extraction_part0 e file =
     (case extractPdfParse_part0 e file of
        Inl err \<Rightarrow> Some (Inl err)
      | Inr ps \<Rightarrow>
          if \<not> usable_part0 ps \<or> ocrOverride e
          then viaOcr_part0 e file
          else Some (Inr (''pdf-parse'', ps)))"

text \<open>\<^verbatim>\<open>pages.map(p => ({ ...p, text: applyArtifactCleanup(processContent(p.text)) }))
  .filter(p => p.text.length > 10)\<close>. The content pipeline of the revision decodes HTML
  entities and tokenizes sentences with two external libraries; it is a parameter.\<close>

definition processedPages_part0 :: "(string \<Rightarrow> string) \<Rightarrow> raw_page list \<Rightarrow> raw_page list" where
  "processedPages_part0 contentPipeline ps =
     filter (\<lambda>p. 10 < length (pageText p))
       (map (\<lambda>p. p \<lparr> pageText := contentPipeline (pageText p) \<rparr>) ps)"

section \<open>Reference notions of the specification\<close>

text \<open>The standard median of a sorted list of lengths: the middle element when the count
  is odd, the mean of the two central elements when it is even.\<close>

definition standardMedian :: "nat list \<Rightarrow> rat" where
  "standardMedian s =
     (if odd (length s) then of_nat (s ! (length s div 2))
      else (of_nat (s ! (length s div 2 - 1)) + of_nat (s ! (length s div 2))) / 2)"

text \<open>The entries of a reconstruction state: every line of every block, the open block
  last. A line that is taken up unmerged adds one entry and leaves the others as they
  are; a merge rewrites the last entry.\<close>

definition entries :: "recon \<Rightarrow> string list" where
  "entries st = concat (map blines (blocks st)) @ blines (currentBlock st)"

text \<open>The state of the loop of \<^verbatim>\<open>cleanNaturalText\<close> after its first \<open>k\<close> iterations.\<close>

fun stateAfter :: "analyzer \<Rightarrow> nat \<Rightarrow> error + recon" where
  "stateAfter an 0 = Inr initialRecon"
| "stateAfter an (Suc k) =
     (case stateAfter an k of
        Inl e \<Rightarrow> Inl e
      | Inr st \<Rightarrow> processLine an k st)"

text \<open>The kind the loop gives to the line at index \<open>i\<close>: the header test comes first,
  the list test second, and what is left is plain paragraph text.\<close>

definition lineKind :: "analyzer \<Rightarrow> nat \<Rightarrow> block_type" where
  "lineKind an i =
     (if isHeaderLine an (lines an ! i) (int i) = Inr True then Header
      else if isListItem (lines an ! i) then ListBlock
      else Paragraph)"

definition linesOfKind :: "analyzer \<Rightarrow> block_type \<Rightarrow> nat \<Rightarrow> string list" where
  "linesOfKind an t k = map (\<lambda>i. lines an ! i) (filter (\<lambda>i. lineKind an i = t) [0..<k])"

text \<open>The kinds of the blocks that a sequence of line kinds calls for: one block for every
  header line and one for every maximal run of list lines or of plain lines.\<close>

fun blockRuns :: "block_type list \<Rightarrow> block_type list" where
  "blockRuns [] = []"
| "blockRuns [t] = [t]"
| "blockRuns (t # t' # ts) =
     (if t = t' \<and> t \<noteq> Header then blockRuns (t' # ts) else t # blockRuns (t' # ts))"

definition blocksOfKind :: "block_type \<Rightarrow> block list \<Rightarrow> block list" where
  "blocksOfKind t bs = filter (\<lambda>b. btype b = t) bs"

definition entriesOfKind :: "block_type \<Rightarrow> block list \<Rightarrow> string list" where
  "entriesOfKind t bs = concat (map blines (blocksOfKind t bs))"

text \<open>What holds of every state the loop reaches: the open block is never a header, an
  open list block has a line, an empty open block occurs only at the start and behind a
  header, and every closed block has a line.\<close>

definition wellFormed :: "recon \<Rightarrow> bool" where
  "wellFormed st \<longleftrightarrow>
     btype (currentBlock st) \<noteq> Header
     \<and> (btype (currentBlock st) = ListBlock \<longrightarrow> blines (currentBlock st) \<noteq> [])
     \<and> (blines (currentBlock st) = [] \<longrightarrow> blocks st = [] \<or> btype (last (blocks st)) = Header)
     \<and> (\<forall>b \<in> set (blocks st). blines b \<noteq> [])"

text \<open>The write is the one artifact of the document: its transcript at the transcript
  path, or an error record at the error path.\<close>

definition artifactFor :: "string \<Rightarrow> file_write \<Rightarrow> bool" where
  "artifactFor file w =
     (case snd w of
        Transcript f method ps \<Rightarrow> fst w = transcriptPath file \<and> f = file
      | ErrorRecord err \<Rightarrow> fst w = errorPath file)"

text \<open>The status requests for a document come to an end: some answer is
  \<^verbatim>\<open>succeeded\<close>, or some request fails in transport.\<close>

definition pollingEnds :: "(nat \<Rightarrow> poll_reply) \<Rightarrow> bool" where
  "pollingEnds replies \<longleftrightarrow>
     (\<exists>m. replies m = PollThrows \<or> (\<exists>payload. replies m = PollData ''succeeded'' payload))"

text \<open>The document reaches the polling loop of \<^verbatim>\<open>src/index.js\<close>: its local pages are
  not usable (or the override flag is set) and the OCR backend accepts it.\<close>

definition sentToOcr :: "env \<Rightarrow> string \<Rightarrow> bool" where
  "sentToOcr e file =
     (case extractPdfParse e file of
        Inl err \<Rightarrow> False
      | Inr ps \<Rightarrow>
          (\<not> usable ps \<or> ocrOverride e)
          \<and> (case submit e file of Inl err \<Rightarrow> False | Inr u \<Rightarrow> True))"

section \<open>Sample documents\<close>

text \<open>A paragraph line, two list items and a closing paragraph line.\<close>

definition listSample :: string where
  "listSample =
     ''Some opening text.'' @ [LF] @ ''- item one.'' @ [LF] @ ''- item two.'' @ [LF]
     @ ''Closing text here.''"




text \<open>An OCR backend that answers every status request with \<^verbatim>\<open>failed\<close>, for a document
  whose local parse gives one page without text.\<close>

definition failedOcrEnv :: env where
  "failedOcrEnv =
     \<lparr> ocrOverride = False,
       getText = (\<lambda>file. Inr \<lparr> pages = Some [Some []], fullText = None \<rparr>),
       submit = (\<lambda>file. Inr ()),
       poll = (\<lambda>file n. PollData ''failed'' None),
       canWrite = (\<lambda>path. True) \<rparr>"

text \<open>Ten locally parsed pages of which exactly five have 50 characters of text, and an
  OCR backend that cannot be reached.\<close>

definition halfPages :: "raw_page list" where
  "halfPages = numberPages 0 (replicate 5 (replicate 50 CHR ''x'') @ replicate 5 [])"

definition halfPagesEnv :: env where
  "halfPagesEnv =
     \<lparr> ocrOverride = False,
       getText = (\<lambda>file. Inr \<lparr> pages = Some (replicate 5 (Some (replicate 50 CHR ''x''))
                                              @ replicate 5 (Some [])),
                                fullText = None \<rparr>),
       submit = (\<lambda>file. Inl TransportError),
       poll = (\<lambda>file n. PollThrows),
       canWrite = (\<lambda>path. True) \<rparr>"

text \<open>A scan without local text whose OCR result is a single page that the backend
  reports as page 7.\<close>

definition pageSevenLine :: string where
  "pageSevenLine = ''this line of scanned text has more than fifty characters.''"

definition pageSevenEnv :: env where
  "pageSevenEnv =
     \<lparr> ocrOverride = False,
       getText = (\<lambda>file. Inr \<lparr> pages = Some [Some []], fullText = None \<rparr>),
       submit = (\<lambda>file. Inr ()),
       poll = (\<lambda>file n. PollData ''succeeded''
                 (Some [\<lparr> reportedPageNumber = 7, content = [pageSevenLine] \<rparr>])),
       canWrite = (\<lambda>path. True) \<rparr>"

text \<open>A page whose text is a running footer followed by 49 characters.\<close>

definition footerPage :: raw_page where
  "footerPage =
     \<lparr> page = 1,
       pageText = ''Page 1 of 2 '' @ replicate 48 CHR ''x'' @ ''.'' \<rparr>"

text \<open>No document can be read, and the error record of \<^verbatim>\<open>a.pdf\<close> cannot be written.\<close>

definition lockedRecordEnv :: env where
  "lockedRecordEnv =
     \<lparr> ocrOverride = False,
       getText = (\<lambda>file. Inl ReadError),
       submit = (\<lambda>file. Inl TransportError),
       poll = (\<lambda>file n. PollThrows),
       canWrite = (\<lambda>path. path \<noteq> ''./output/a.error.txt'') \<rparr>"

text \<open>\<^verbatim>\<open>a.pdf\<close> cannot be read; \<^verbatim>\<open>c.pdf\<close> is a scan without local text; every other
  document parses into one page of text. The OCR backend accepts every document, answers
  the first status request with \<^verbatim>\<open>running\<close> and every later one with \<^verbatim>\<open>succeeded\<close>
  and one page. The output directory is writable.\<close>

definition mixedEnv :: env where
  "mixedEnv =
     \<lparr> ocrOverride = False,
       getText = (\<lambda>file. if file = ''a.pdf'' then Inl ReadError
                          else if file = ''c.pdf''
                          then Inr \<lparr> pages = Some [Some []], fullText = None \<rparr>
                          else Inr \<lparr> pages = Some [Some pageSevenLine], fullText = None \<rparr>),
       submit = (\<lambda>file. Inr ()),
       poll = (\<lambda>file n. if n = 0 then PollData ''running'' None
                          else PollData ''succeeded''
                                 (Some [\<lparr> reportedPageNumber = 1,
                                          content = [pageSevenLine] \<rparr>])),
       canWrite = (\<lambda>path. True) \<rparr>"

section \<open>Verification\<close>

subsection \<open>The median\<close>

lemma median_of_sorted:
  assumes "s \<noteq> []"
  shows "(let mid = int (length s) div 2
          in if length s mod 2 \<noteq> 0 then numAt s mid
             else halfSum (numAt s (mid - 1)) (numAt s mid)) = Num (standardMedian s)"
proof -
  have pos: "0 < length s" using assms by simp
  show ?thesis
  proof (cases "odd (length s)")
    case True
    then have "length s mod 2 \<noteq> 0" by presburger
    moreover have "nat (int (length s) div 2) = length s div 2" by linarith
    moreover have "int (length s) div 2 < int (length s)" using pos by linarith
    ultimately show ?thesis using True
      by (simp add: Let_def numAt_def standardMedian_def)
  next
    case False
    then have ev: "length s mod 2 = 0" by presburger
    with pos have two: "2 \<le> length s" by presburger
    have a: "nat (int (length s) div 2) = length s div 2" by linarith
    have b: "nat (int (length s) div 2 - 1) = length s div 2 - 1" using two by linarith
    have c: "int (length s) div 2 < int (length s)" using pos by linarith
    have d: "0 \<le> int (length s) div 2 - 1" using two by linarith
    show ?thesis using False ev a b c d
      by (simp add: Let_def numAt_def standardMedian_def)
  qed
qed

text \<open>
  C7. For every non-empty list of lines, the median line length that \<^verbatim>\<open>analyzeDocument\<close>
  computes is the standard median of the line lengths: whatever sorted arrangement \<open>s\<close>
  of the lengths is taken, the result is its middle element when the count is odd and
  the mean of its two central elements when the count is even. This holds for
  \<^verbatim>\<open>median\<close> of \<^verbatim>\<open>src/index.js\<close> and for the inlined computation of the revision
  \<^verbatim>\<open>src/unnamed/part_000\<close>.
\<close>

theorem median_standard:
  assumes "ls \<noteq> []" and "sorted s" and "mset s = mset (map length ls)"
  shows "medianLength (analyzeDocument ls) = Num (standardMedian s)
         \<and> analyzeDocument_part0 ls = Num (standardMedian s)"
proof -
  have srt: "sort (map length ls) = s"
    using assms(2,3) by (simp add: properties_for_sort)
  have ne: "s \<noteq> []" using assms(1,3) by auto
  have "median (map length ls) = Num (standardMedian s)"
    unfolding median_def srt using median_of_sorted [OF ne] by (simp add: Let_def)
  moreover have "analyzeDocument_part0 ls = Num (standardMedian s)"
    unfolding analyzeDocument_part0_def using assms(1) median_of_sorted [OF ne]
    by (simp add: Let_def srt)
  ultimately show ?thesis by (simp add: analyzeDocument_def Let_def)
qed

theorem median_standard_witness:
  "[''a'', ''ab'', ''abc'', ''abcd''] \<noteq> [] \<and> sorted [1, 2, 3, 4 :: nat]
   \<and> mset [1, 2, 3, 4 :: nat] = mset (map length [''a'', ''ab'', ''abc'', ''abcd''])
   \<and> medianLength (analyzeDocument [''a'', ''ab'', ''abc'', ''abcd'']) = Num (5 / 2)
   \<and> analyzeDocument_part0 [''a'', ''ab'', ''abc'', ''abcd''] = Num (5 / 2)"
proof -
  have h1: "[''a'', ''ab'', ''abc'', ''abcd''] \<noteq> []" by simp
  have h2: "sorted [1, 2, 3, 4 :: nat]" by simp
  have len: "map length [''a'', ''ab'', ''abc'', ''abcd''] = [1, 2, 3, 4 :: nat]" by simp
  have h3: "mset [1, 2, 3, 4 :: nat] = mset (map length [''a'', ''ab'', ''abc'', ''abcd''])"
    by (simp only: len)
  have sm: "standardMedian [1, 2, 3, 4] = 5 / 2" by (simp add: standardMedian_def)
  from median_standard [OF h1 h2 h3]
  have "medianLength (analyzeDocument [''a'', ''ab'', ''abc'', ''abcd'']) = Num (5 / 2)
        \<and> analyzeDocument_part0 [''a'', ''ab'', ''abc'', ''abcd''] = Num (5 / 2)"
    unfolding sm .
  with h1 h2 h3 show ?thesis by blast
qed

subsection \<open>The reconstruction loop does not fail\<close>

lemma lineAt_in_range: "0 \<le> i \<Longrightarrow> i < int (length ls) \<Longrightarrow> lineAt ls i = Some (ls ! nat i)"
  by (simp add: lineAt_def)

lemma isHeaderLine_defined:
  assumes "- 1 \<le> index" and "index \<le> int (length (lines an))"
  shows "\<exists>b. isHeaderLine an line index = Inr b"
proof -
  have "\<exists>p. (if 0 < index then lineAt (lines an) (index - 1) else Some []) = Some p"
    using assms by (simp add: lineAt_def)
  then obtain p where p: "(if 0 < index then lineAt (lines an) (index - 1) else Some []) = Some p"
    by blast
  have "\<exists>n. (if index < int (length (lines an)) - 1
                      then lineAt (lines an) (index + 1) else Some []) = Some n"
    using assms by (simp add: lineAt_def)
  then obtain n where n: "(if index < int (length (lines an)) - 1
                      then lineAt (lines an) (index + 1) else Some []) = Some n"
    by blast
  show ?thesis
    unfolding isHeaderLine_def Let_def p n contextFactor_def by auto
qed

lemma isContinuation_defined: "\<exists>b. isContinuation an line = Inr b"
proof -
  obtain b where "isHeaderLine an line (- 1) = Inr b"
    using isHeaderLine_defined [of "- 1" an line] by auto
  then show ?thesis by (auto simp: isContinuation_def)
qed

lemma upper_not_lower: "isUpper c \<Longrightarrow> \<not> isLower c"
  by (simp add: isUpper_def isLower_def)



lemma shouldMerge_defined: "\<exists>m. shouldMerge an lastLine line = Inr m"
proof -
  obtain c where "isContinuation an line = Inr c" using isContinuation_defined by blast
  then show ?thesis by (auto simp: shouldMerge_def)
qed


lemma processLine_defined:
  assumes "i < length (lines an)"
  shows "\<exists>st'. processLine an i st = Inr st'"
proof -
  obtain h where h: "isHeaderLine an (lines an ! i) (int i) = Inr h"
    using isHeaderLine_defined [of "int i" an] assms by auto
  show ?thesis
  proof (cases h)
    case True
    with h show ?thesis by (simp add: processLine_def Let_def)
  next
    case False
    define cur1 where "cur1 =
      (if btype (currentBlock st) = ListBlock \<and> blines (currentBlock st) \<noteq> []
       then emptyBlock Paragraph else currentBlock st)"
    obtain m where "shouldMerge an (last (blines cur1)) (lines an ! i) = Inr m"
      using shouldMerge_defined by blast
    with h False show ?thesis
      by (auto simp: processLine_def Let_def cur1_def split: if_splits)
  qed
qed

lemma stateAfter_defined: "k \<le> length (lines an) \<Longrightarrow> \<exists>st. stateAfter an k = Inr st"
proof (induction k)
  case 0
  then show ?case by simp
next
  case (Suc k)
  then obtain st where "stateAfter an k = Inr st" by auto
  moreover obtain st' where "processLine an k st = Inr st'"
    using processLine_defined [of k an st] Suc.prems by auto
  ultimately show ?case by simp
qed

lemma loop_stateAfter:
  "k \<le> length (lines an) \<Longrightarrow> stateAfter an k = Inr st \<Longrightarrow>
   reconstructLoop an k st = stateAfter an (length (lines an))"
proof (induction an k st rule: reconstructLoop.induct)
  case (1 an i st)
  show ?case
  proof (cases "i < length (lines an)")
    case True
    then obtain st' where st': "processLine an i st = Inr st'"
      using processLine_defined by blast
    then have "stateAfter an (Suc i) = Inr st'" using "1.prems" by simp
    then have "reconstructLoop an (Suc i) st' = stateAfter an (length (lines an))"
      using "1.IH" [OF True st'] True by simp
    then show ?thesis using True st' by (subst reconstructLoop.simps) simp
  next
    case False
    then have "i = length (lines an)" using "1.prems" by simp
    then show ?thesis using "1.prems" by (subst reconstructLoop.simps) simp
  qed
qed

lemma assembleBlocks_stateAfter:
  "assembleBlocks an = (case stateAfter an (length (lines an)) of
                          Inl e \<Rightarrow> Inl e | Inr st \<Rightarrow> Inr (finalBlocks st))"
  using loop_stateAfter [of 0 an initialRecon] by (simp add: assembleBlocks_def)

subsection \<open>Blank input\<close>

lemma splitLines_chars: "l \<in> set (splitLines s) \<Longrightarrow> set l \<subseteq> set s"
proof (induction s arbitrary: l rule: splitLines.induct)
  case 1
  then show ?case by simp
next
  case (2 c)
  then show ?case by (auto split: if_splits)
next
  case (3 c d cs)
  then show ?case
    by (fastforce split: if_splits list.splits)
qed

lemma trim_blank:
  assumes "\<forall>c \<in> set l. js_space c"
  shows "trim l = []"
proof -
  have d: "dropWhile js_space l = []" using assms by (simp add: dropWhile_eq_Nil_conv)
  show ?thesis unfolding trim_def d by simp
qed

lemma blank_text_no_lines:
  assumes "\<forall>c \<in> set s. js_space c"
  shows "analyzerLines s = []"
proof -
  have "trim l = []" if "l \<in> set (splitLines s)" for l
    using that splitLines_chars [OF that] assms by (intro trim_blank) blast
  then show ?thesis
    by (auto simp: analyzerLines_def filter_empty_conv)
qed

lemma cleanNaturalText_no_lines:
  assumes "analyzerLines s = []"
  shows "cleanNaturalText (Some s) = Inr []"
proof -
  have "reconstructLoop (TextStructureAnalyzer s) 0 initialRecon = Inr initialRecon"
    using assms by (subst reconstructLoop.simps) (simp add: TextStructureAnalyzer_def)
  then have "assembleBlocks (TextStructureAnalyzer s) = Inr []"
    by (simp add: assembleBlocks_def finalBlocks_def initialRecon_def emptyBlock_def)
  then show ?thesis
    by (simp add: cleanNaturalText_def trim_def)
qed

text \<open>
  C10. For every raw text that is \<^verbatim>\<open>null\<close> or \<^verbatim>\<open>undefined\<close> (here \<open>None\<close>), empty, or
  made of white space and line breaks only, \<^verbatim>\<open>cleanNaturalText\<close> returns the empty
  string and raises nothing. For the non-empty blank texts the guard at the top does not
  apply: the analyzer is built, its line set is empty, and the averages, the median and
  the ratios of \<^verbatim>\<open>analyzeDocument\<close> are all \<^verbatim>\<open>NaN\<close> from the division by the zero line
  count, which no later step reads.
\<close>

theorem cleanNaturalText_blank:
  assumes "rawText = None \<or> (\<exists>s. rawText = Some s \<and> list_all js_space s)"
  shows "cleanNaturalText rawText = Inr []
         \<and> (\<forall>s. rawText = Some s \<longrightarrow>
               analyzerLines s = []
               \<and> avgLength (stats (TextStructureAnalyzer s)) = NaN
               \<and> medianLength (stats (TextStructureAnalyzer s)) = NaN
               \<and> sentenceEndingRatio (stats (TextStructureAnalyzer s)) = NaN
               \<and> colonEndingRatio (stats (TextStructureAnalyzer s)) = NaN)"
proof (cases rawText)
  case None
  then show ?thesis by (simp add: cleanNaturalText_def)
next
  case (Some s)
  with assms have "\<forall>c \<in> set s. js_space c" by (simp add: list_all_iff)
  then have nl: "analyzerLines s = []" by (rule blank_text_no_lines)
  have "median [] = NaN" by (simp add: median_def numAt_def)
  then show ?thesis
    using Some nl cleanNaturalText_no_lines [OF nl]
    by (simp add: TextStructureAnalyzer_def analyzeDocument_def)
qed

theorem cleanNaturalText_blank_witness:
  "(Some ([CHR '' '', LF, CHR 0x09, CR, LF]) = None
      \<or> (\<exists>s. Some [CHR '' '', LF, CHR 0x09, CR, LF] = Some s \<and> list_all js_space s))
   \<and> cleanNaturalText (Some [CHR '' '', LF, CHR 0x09, CR, LF]) = Inr []
   \<and> medianLength (stats (TextStructureAnalyzer [CHR '' '', LF, CHR 0x09, CR, LF])) = NaN"
proof -
  have h: "Some ([CHR '' '', LF, CHR 0x09, CR, LF]) = None
      \<or> (\<exists>s. Some [CHR '' '', LF, CHR 0x09, CR, LF] = Some s \<and> list_all js_space s)"
    by (simp add: js_space_def charCode_def LF_def CR_def)
  from cleanNaturalText_blank [OF h] h show ?thesis by simp
qed

subsection \<open>Blocks and lines\<close>

lemma blockRuns_snoc:
  "blockRuns (ts @ [t]) =
     (if ts \<noteq> [] \<and> last ts = t \<and> t \<noteq> Header then blockRuns ts else blockRuns ts @ [t])"
  by (induction ts rule: blockRuns.induct) auto

lemma blockRuns_Nil: "blockRuns ts = [] \<longleftrightarrow> ts = []"
  by (induction ts rule: blockRuns.induct) auto

lemma last_blockRuns: "ts \<noteq> [] \<Longrightarrow> last (blockRuns ts) = last ts"
  by (induction ts rule: blockRuns.induct) (auto simp: blockRuns_Nil)

lemma joinWith_snoc:
  "joinWith sep (xs @ [a]) = (if xs = [] then a else joinWith sep xs @ sep @ a)"
  by (induction sep xs rule: joinWith.induct) auto

lemma joinWith_merge_last:
  "xs \<noteq> [] \<Longrightarrow> joinWith sep (butlast xs @ [last xs @ sep @ a]) = joinWith sep (xs @ [a])"
proof -
  assume "xs \<noteq> []"
  then have x: "xs = butlast xs @ [last xs]" by simp
  have "joinWith sep (xs @ [a]) = joinWith sep ((butlast xs @ [last xs]) @ [a])"
    using x by simp
  also have "\<dots> = joinWith sep (butlast xs @ [last xs]) @ sep @ a"
    by (subst joinWith_snoc) simp
  also have "\<dots> = joinWith sep (butlast xs @ [last xs @ sep @ a])"
    by (simp add: joinWith_snoc)
  finally show ?thesis by simp
qed

lemma lineKind_not_header:
  assumes "i < length (lines an)" and "lineKind an i \<noteq> Header"
  shows "isHeaderLine an (lines an ! i) (int i) = Inr False"
proof -
  obtain h where "isHeaderLine an (lines an ! i) (int i) = Inr h"
    using isHeaderLine_defined [of "int i" an] assms(1) by auto
  with assms(2) show ?thesis by (cases h) (auto simp: lineKind_def)
qed

lemma block_type_cases: "t = Paragraph \<or> t = ListBlock \<or> t = Header"
  by (cases t) auto

lemma processLine_cases [consumes 2, case_names header list_more list_new plain_after_list plain_first plain_more]:
  assumes "i < length (lines an)" and "wellFormed st"
  obtains
    (header) "lineKind an i = Header"
      "processLine an i st =
         Inr \<lparr> blocks = finalBlocks st @ [\<lparr> btype = Header, blines = [lines an ! i],
                                            level = Some (headerLevel (lines an ! i)) \<rparr>],
               currentBlock = emptyBlock Paragraph \<rparr>"
  | (list_more) "lineKind an i = ListBlock" "btype (currentBlock st) = ListBlock"
      "blines (currentBlock st) \<noteq> []"
      "processLine an i st =
         Inr (st \<lparr> currentBlock := (currentBlock st)
                    \<lparr> blines := blines (currentBlock st) @ [lines an ! i] \<rparr> \<rparr>)"
  | (list_new) "lineKind an i = ListBlock" "btype (currentBlock st) = Paragraph"
      "processLine an i st =
         Inr \<lparr> blocks = finalBlocks st,
               currentBlock = \<lparr> btype = ListBlock, blines = [lines an ! i], level = None \<rparr> \<rparr>"
  | (plain_after_list) "lineKind an i = Paragraph" "btype (currentBlock st) = ListBlock"
      "blines (currentBlock st) \<noteq> []"
      "processLine an i st =
         Inr \<lparr> blocks = blocks st @ [currentBlock st],
               currentBlock = \<lparr> btype = Paragraph, blines = [lines an ! i], level = None \<rparr> \<rparr>"
  | (plain_first) "lineKind an i = Paragraph" "btype (currentBlock st) = Paragraph"
      "blines (currentBlock st) = []"
      "processLine an i st =
         Inr (st \<lparr> currentBlock := (currentBlock st) \<lparr> blines := [lines an ! i] \<rparr> \<rparr>)"
  | (plain_more) m where "lineKind an i = Paragraph" "btype (currentBlock st) = Paragraph"
      "blines (currentBlock st) \<noteq> []"
      "shouldMerge an (last (blines (currentBlock st))) (lines an ! i) = Inr m"
      "processLine an i st =
         Inr (st \<lparr> currentBlock := (currentBlock st) \<lparr> blines :=
                (if m then butlast (blines (currentBlock st))
                           @ [last (blines (currentBlock st)) @ '' '' @ lines an ! i]
                 else blines (currentBlock st) @ [lines an ! i]) \<rparr> \<rparr>)"
proof -
  let ?l = "lines an ! i"
  let ?cur = "currentBlock st"
  have cur: "btype ?cur = Paragraph \<or> btype ?cur = ListBlock"
    using assms(2) block_type_cases [of "btype ?cur"] by (auto simp: wellFormed_def)
  have lst: "btype ?cur = ListBlock \<Longrightarrow> blines ?cur \<noteq> []"
    using assms(2) by (simp add: wellFormed_def)
  consider (H) "lineKind an i = Header" | (L) "lineKind an i = ListBlock"
    | (P) "lineKind an i = Paragraph"
    using block_type_cases by blast
  then show thesis
  proof cases
    case H
    then have "isHeaderLine an ?l (int i) = Inr True"
      by (auto simp: lineKind_def split: if_splits)
    then have "processLine an i st =
         Inr \<lparr> blocks = finalBlocks st @ [\<lparr> btype = Header, blines = [?l],
                                            level = Some (headerLevel ?l) \<rparr>],
               currentBlock = emptyBlock Paragraph \<rparr>"
      by (simp add: processLine_def Let_def finalBlocks_def)
    with H show thesis by (rule header)
  next
    case L
    then have h: "isHeaderLine an ?l (int i) = Inr False"
      using lineKind_not_header [OF assms(1)] by simp
    have li: "isListItem ?l" using L by (auto simp: lineKind_def split: if_splits)
    from cur show thesis
    proof
      assume p: "btype ?cur = Paragraph"
      have "processLine an i st =
         Inr \<lparr> blocks = finalBlocks st,
               currentBlock = \<lparr> btype = ListBlock, blines = [?l], level = None \<rparr> \<rparr>"
        using h li p by (simp add: processLine_def Let_def finalBlocks_def emptyBlock_def)
      with L p show thesis by (rule list_new)
    next
      assume q: "btype ?cur = ListBlock"
      have "processLine an i st =
         Inr (st \<lparr> currentBlock := ?cur \<lparr> blines := blines ?cur @ [?l] \<rparr> \<rparr>)"
        using h li q by (simp add: processLine_def Let_def)
      with L q lst [OF q] show thesis by (rule list_more)
    qed
  next
    case P
    then have h: "isHeaderLine an ?l (int i) = Inr False"
      using lineKind_not_header [OF assms(1)] by simp
    have li: "\<not> isListItem ?l" using P by (auto simp: lineKind_def split: if_splits)
    from cur show thesis
    proof
      assume p: "btype ?cur = Paragraph"
      show thesis
      proof (cases "blines ?cur = []")
        case True
        have "processLine an i st = Inr (st \<lparr> currentBlock := ?cur \<lparr> blines := [?l] \<rparr> \<rparr>)"
          using h li p True by (simp add: processLine_def Let_def)
        with P p True show thesis by (rule plain_first)
      next
        case False
        obtain m where m: "shouldMerge an (last (blines ?cur)) ?l = Inr m"
          using shouldMerge_defined by blast
        have "processLine an i st =
           Inr (st \<lparr> currentBlock := ?cur \<lparr> blines :=
                (if m then butlast (blines ?cur) @ [last (blines ?cur) @ '' '' @ ?l]
                 else blines ?cur @ [?l]) \<rparr> \<rparr>)"
          using h li p False m by (simp add: processLine_def Let_def)
        with P p False m show thesis by (rule plain_more)
      qed
    next
      assume q: "btype ?cur = ListBlock"
      have "processLine an i st =
         Inr \<lparr> blocks = blocks st @ [?cur],
               currentBlock = \<lparr> btype = Paragraph, blines = [?l], level = None \<rparr> \<rparr>"
        using h li q lst [OF q] by (simp add: processLine_def Let_def emptyBlock_def)
      with P q lst [OF q] show thesis by (rule plain_after_list)
    qed
  qed
qed

lemma wellFormed_initial: "wellFormed initialRecon"
  by (simp add: wellFormed_def initialRecon_def emptyBlock_def)

lemma wellFormed_step:
  assumes "i < length (lines an)" and "wellFormed st" and "processLine an i st = Inr st'"
  shows "wellFormed st'"
  using assms(1,2)
proof (cases rule: processLine_cases)
  case header
  with assms show ?thesis
    by (auto simp: wellFormed_def finalBlocks_def emptyBlock_def split: if_splits)
next
  case list_more
  with assms show ?thesis by (auto simp: wellFormed_def)
next
  case list_new
  with assms show ?thesis by (auto simp: wellFormed_def finalBlocks_def split: if_splits)
next
  case plain_after_list
  with assms show ?thesis by (auto simp: wellFormed_def)
next
  case plain_first
  with assms show ?thesis by (auto simp: wellFormed_def)
next
  case (plain_more m)
  with assms show ?thesis by (cases m) (auto simp: wellFormed_def)
qed

lemma stateAfter_wellFormed:
  "k \<le> length (lines an) \<Longrightarrow> stateAfter an k = Inr st \<Longrightarrow> wellFormed st"
proof (induction k arbitrary: st)
  case 0
  then show ?case by (simp add: wellFormed_initial)
next
  case (Suc k)
  then obtain st0 where st0: "stateAfter an k = Inr st0"
    using stateAfter_defined [of k an] by auto
  with Suc have "wellFormed st0" and "processLine an k st0 = Inr st" by auto
  then show ?case using wellFormed_step [of k an st0 st] Suc.prems by simp
qed

lemma last_kind:
  assumes "map btype bs = blockRuns ts" and "bs \<noteq> []"
  shows "ts \<noteq> [] \<and> last ts = btype (last bs)"
proof -
  have ne: "ts \<noteq> []" using assms blockRuns_Nil [of ts] by auto
  have "last (map btype bs) = btype (last bs)" using assms(2) by (simp add: last_map)
  with assms(1) ne show ?thesis by (simp add: last_blockRuns)
qed

lemma kinds_step:
  assumes "i < length (lines an)" and "wellFormed st" and "processLine an i st = Inr st'"
    and inv: "map btype (finalBlocks st) = blockRuns ts"
  shows "map btype (finalBlocks st') = blockRuns (ts @ [lineKind an i])"
  using assms(1,2)
proof (cases rule: processLine_cases)
  case header
  with assms(3) inv show ?thesis
    by (auto simp: finalBlocks_def emptyBlock_def blockRuns_snoc)
next
  case list_more
  then have "finalBlocks st \<noteq> []" and "btype (last (finalBlocks st)) = ListBlock"
    by (simp_all add: finalBlocks_def)
  with last_kind [OF inv] have "ts \<noteq> []" "last ts = ListBlock" by auto
  with list_more assms(3) inv show ?thesis
    by (auto simp: finalBlocks_def blockRuns_snoc)
next
  case list_new
  have "ts = [] \<or> last ts \<noteq> ListBlock"
  proof (cases "finalBlocks st = []")
    case True
    with inv show ?thesis using blockRuns_Nil [of ts] by auto
  next
    case False
    have "btype (last (finalBlocks st)) \<noteq> ListBlock"
      using list_new(2) False assms(2)
      by (auto simp: finalBlocks_def wellFormed_def split: if_splits)
    with last_kind [OF inv False] show ?thesis by simp
  qed
  with list_new assms(3) inv show ?thesis
    by (auto simp: finalBlocks_def blockRuns_snoc)
next
  case plain_after_list
  then have "finalBlocks st \<noteq> []" and "btype (last (finalBlocks st)) = ListBlock"
    by (simp_all add: finalBlocks_def)
  with last_kind [OF inv] have "ts \<noteq> []" "last ts = ListBlock" by auto
  with plain_after_list assms(3) inv show ?thesis
    by (auto simp: finalBlocks_def blockRuns_snoc)
next
  case plain_first
  have "ts = [] \<or> last ts = Header"
  proof (cases "finalBlocks st = []")
    case True
    with inv show ?thesis using blockRuns_Nil [of ts] by auto
  next
    case False
    have "btype (last (finalBlocks st)) = Header"
      using plain_first(3) False assms(2)
      by (auto simp: finalBlocks_def wellFormed_def split: if_splits)
    with last_kind [OF inv False] show ?thesis by simp
  qed
  with plain_first assms(3) inv show ?thesis
    by (auto simp: finalBlocks_def blockRuns_snoc)
next
  case (plain_more m)
  then have "finalBlocks st \<noteq> []" and "btype (last (finalBlocks st)) = Paragraph"
    by (simp_all add: finalBlocks_def)
  with last_kind [OF inv] have "ts \<noteq> []" "last ts = Paragraph" by auto
  with plain_more assms(3) inv show ?thesis
    by (auto simp: finalBlocks_def blockRuns_snoc)
qed

lemma stateAfter_kinds:
  "k \<le> length (lines an) \<Longrightarrow> stateAfter an k = Inr st \<Longrightarrow>
   map btype (finalBlocks st) = blockRuns (map (lineKind an) [0..<k])"
proof (induction k arbitrary: st)
  case 0
  then have "st = initialRecon" by simp
  then show ?case by (simp add: initialRecon_def finalBlocks_def emptyBlock_def)
next
  case (Suc k)
  then obtain st0 where st0: "stateAfter an k = Inr st0"
    using stateAfter_defined [of k an] by auto
  with Suc have step: "processLine an k st0 = Inr st" by simp
  have wf: "wellFormed st0" using stateAfter_wellFormed [OF _ st0] Suc.prems by simp
  have "map btype (finalBlocks st0) = blockRuns (map (lineKind an) [0..<k])"
    using Suc.IH [OF _ st0] Suc.prems by simp
  from kinds_step [OF _ wf step this] Suc.prems show ?case by simp
qed

lemma linesOfKind_Suc:
  "linesOfKind an t (Suc k) =
     linesOfKind an t k @ (if lineKind an k = t then [lines an ! k] else [])"
  by (simp add: linesOfKind_def)

lemma entries_step:
  assumes "i < length (lines an)" and "wellFormed st" and "processLine an i st = Inr st'"
    and "t \<noteq> Paragraph"
  shows "entriesOfKind t (finalBlocks st') =
           entriesOfKind t (finalBlocks st) @ (if lineKind an i = t then [lines an ! i] else [])"
  using assms(1,2)
proof (cases rule: processLine_cases)
  case header
  with assms(3,4) show ?thesis
    by (auto simp: entriesOfKind_def blocksOfKind_def finalBlocks_def emptyBlock_def)
next
  case list_more
  with assms(3,4) show ?thesis
    by (auto simp: entriesOfKind_def blocksOfKind_def finalBlocks_def)
next
  case list_new
  with assms(3,4) show ?thesis
    by (auto simp: entriesOfKind_def blocksOfKind_def finalBlocks_def)
next
  case plain_after_list
  with assms(3,4) show ?thesis
    by (auto simp: entriesOfKind_def blocksOfKind_def finalBlocks_def)
next
  case plain_first
  with assms(3,4) show ?thesis
    by (auto simp: entriesOfKind_def blocksOfKind_def finalBlocks_def)
next
  case (plain_more m)
  with assms(3,4) show ?thesis
    by (cases m) (auto simp: entriesOfKind_def blocksOfKind_def finalBlocks_def)
qed

lemma stateAfter_entries:
  "k \<le> length (lines an) \<Longrightarrow> stateAfter an k = Inr st \<Longrightarrow> t \<noteq> Paragraph \<Longrightarrow>
   entriesOfKind t (finalBlocks st) = linesOfKind an t k"
proof (induction k arbitrary: st)
  case 0
  then have "st = initialRecon" by simp
  then show ?case
    by (simp add: initialRecon_def finalBlocks_def emptyBlock_def entriesOfKind_def
        blocksOfKind_def linesOfKind_def)
next
  case (Suc k)
  then obtain st0 where st0: "stateAfter an k = Inr st0"
    using stateAfter_defined [of k an] by auto
  with Suc have step: "processLine an k st0 = Inr st" by simp
  have wf: "wellFormed st0" using stateAfter_wellFormed [OF _ st0] Suc.prems by simp
  have "entriesOfKind t (finalBlocks st0) = linesOfKind an t k"
    using Suc.IH [OF _ st0] Suc.prems by simp
  with entries_step [OF _ wf step Suc.prems(3)] Suc.prems show ?case
    by (simp add: linesOfKind_Suc)
qed

lemma paragraph_step:
  assumes "i < length (lines an)" and "wellFormed st" and "processLine an i st = Inr st'"
  shows "if lineKind an i = Paragraph
         then entriesOfKind Paragraph (finalBlocks st') \<noteq> []
              \<and> joinWith '' '' (entriesOfKind Paragraph (finalBlocks st'))
                  = joinWith '' '' (entriesOfKind Paragraph (finalBlocks st) @ [lines an ! i])
         else entriesOfKind Paragraph (finalBlocks st')
                = entriesOfKind Paragraph (finalBlocks st)"
  using assms(1,2)
proof (cases rule: processLine_cases)
  case header
  with assms(3) show ?thesis
    by (auto simp: entriesOfKind_def blocksOfKind_def finalBlocks_def emptyBlock_def)
next
  case list_more
  with assms(3) show ?thesis
    by (auto simp: entriesOfKind_def blocksOfKind_def finalBlocks_def)
next
  case list_new
  with assms(3) show ?thesis
    by (auto simp: entriesOfKind_def blocksOfKind_def finalBlocks_def)
next
  case plain_after_list
  with assms(3) show ?thesis
    by (auto simp: entriesOfKind_def blocksOfKind_def finalBlocks_def)
next
  case plain_first
  with assms(3) show ?thesis
    by (auto simp: entriesOfKind_def blocksOfKind_def finalBlocks_def)
next
  case (plain_more m)
  let ?P = "concat (map blines (filter (\<lambda>b. btype b = Paragraph) (blocks st)))"
  let ?L = "blines (currentBlock st)"
  let ?l = "lines an ! i"
  have old: "entriesOfKind Paragraph (finalBlocks st) = ?P @ ?L"
    using plain_more by (simp add: entriesOfKind_def blocksOfKind_def finalBlocks_def)
  show ?thesis
  proof (cases m)
    case False
    with plain_more assms(3) show ?thesis
      by (auto simp: entriesOfKind_def blocksOfKind_def finalBlocks_def)
  next
    case True
    then have new: "entriesOfKind Paragraph (finalBlocks st')
                      = ?P @ butlast ?L @ [last ?L @ '' '' @ ?l]"
      using plain_more assms(3)
      by (auto simp: entriesOfKind_def blocksOfKind_def finalBlocks_def)
    have ne: "?P @ ?L \<noteq> []" using plain_more(3) by simp
    have "butlast (?P @ ?L) = ?P @ butlast ?L" and "last (?P @ ?L) = last ?L"
      using plain_more(3) by (simp_all add: butlast_append)
    with joinWith_merge_last [OF ne, of "'' ''" ?l]
    have "joinWith '' '' (?P @ butlast ?L @ [last ?L @ '' '' @ ?l])
            = joinWith '' '' ((?P @ ?L) @ [?l])"
      by simp
    with new old plain_more(1) show ?thesis by simp
  qed
qed

lemma stateAfter_paragraph_text:
  "k \<le> length (lines an) \<Longrightarrow> stateAfter an k = Inr st \<Longrightarrow>
   joinWith '' '' (entriesOfKind Paragraph (finalBlocks st))
     = joinWith '' '' (linesOfKind an Paragraph k)
   \<and> (entriesOfKind Paragraph (finalBlocks st) = [] \<longleftrightarrow> linesOfKind an Paragraph k = [])"
proof (induction k arbitrary: st)
  case 0
  then have "st = initialRecon" by simp
  then show ?case
    by (simp add: initialRecon_def finalBlocks_def emptyBlock_def entriesOfKind_def
        blocksOfKind_def linesOfKind_def)
next
  case (Suc k)
  then obtain st0 where st0: "stateAfter an k = Inr st0"
    using stateAfter_defined [of k an] by auto
  with Suc have step: "processLine an k st0 = Inr st" by simp
  have wf: "wellFormed st0" using stateAfter_wellFormed [OF _ st0] Suc.prems by simp
  have ih: "joinWith '' '' (entriesOfKind Paragraph (finalBlocks st0))
              = joinWith '' '' (linesOfKind an Paragraph k)"
       "entriesOfKind Paragraph (finalBlocks st0) = [] \<longleftrightarrow> linesOfKind an Paragraph k = []"
    using Suc.IH [OF _ st0] Suc.prems by simp_all
  have ps: "if lineKind an k = Paragraph
         then entriesOfKind Paragraph (finalBlocks st) \<noteq> []
              \<and> joinWith '' '' (entriesOfKind Paragraph (finalBlocks st))
                  = joinWith '' '' (entriesOfKind Paragraph (finalBlocks st0) @ [lines an ! k])
         else entriesOfKind Paragraph (finalBlocks st)
                = entriesOfKind Paragraph (finalBlocks st0)"
    using paragraph_step [OF _ wf step] Suc.prems by simp
  show ?case
  proof (cases "lineKind an k = Paragraph")
    case True
    with ps ih show ?thesis by (simp add: linesOfKind_Suc joinWith_snoc)
  next
    case False
    with ps ih show ?thesis by (simp add: linesOfKind_Suc)
  qed
qed

lemma renderBlocks_defined:
  "\<forall>b \<in> set bs. blines b \<noteq> [] \<Longrightarrow> \<exists>rs. renderBlocks bs = Inr rs"
proof (induction bs)
  case Nil
  then show ?case by simp
next
  case (Cons b bs)
  then obtain rs where "renderBlocks bs = Inr rs" by auto
  moreover have "\<exists>r. renderBlock b = Inr r"
    using Cons.prems by (cases "btype b") (auto simp: renderBlock_def Let_def split: list.splits)
  ultimately show ?case by auto
qed

lemma finalBlocks_nonempty_lines:
  "wellFormed st \<Longrightarrow> \<forall>b \<in> set (finalBlocks st). blines b \<noteq> []"
  by (auto simp: wellFormed_def finalBlocks_def)

lemma cleanNaturalText_defined: "\<exists>out. cleanNaturalText rawText = Inr out"
proof (cases rawText)
  case None
  then show ?thesis by (simp add: cleanNaturalText_def)
next
  case (Some raw)
  let ?an = "TextStructureAnalyzer raw"
  obtain st where st: "stateAfter ?an (length (lines ?an)) = Inr st"
    using stateAfter_defined [of "length (lines ?an)" ?an] by auto
  then have ab: "assembleBlocks ?an = Inr (finalBlocks st)"
    by (simp add: assembleBlocks_stateAfter)
  have "wellFormed st" using stateAfter_wellFormed [OF _ st] by simp
  then obtain rs where "renderBlocks (finalBlocks st) = Inr rs"
    using renderBlocks_defined finalBlocks_nonempty_lines by blast
  with ab Some show ?thesis by (simp add: cleanNaturalText_def)
qed

text \<open>
  C8. For every analyzer (so for every input document), the loop of \<^verbatim>\<open>cleanNaturalText\<close>
  does not fail, and of the blocks it assembles the following holds. The lines of the list
  blocks, read in block order, are exactly the lines that the loop classifies as list
  items, verbatim and in their original order: none is joined with another line, lost or
  moved. Every list block renders as its lines joined by a line feed. The kinds of the
  blocks are those of the maximal runs of line kinds, so list lines and plain lines never
  share a block and a plain line behind a list block starts a fresh paragraph block. The
  text of the paragraph blocks is made of the plain lines only.
\<close>

theorem list_blocks_not_merged:
  "\<exists>bs. assembleBlocks an = Inr bs
     \<and> entriesOfKind ListBlock bs = linesOfKind an ListBlock (length (lines an))
     \<and> map renderBlock (blocksOfKind ListBlock bs)
         = map (\<lambda>b. Inr (joinWith [LF] (blines b))) (blocksOfKind ListBlock bs)
     \<and> map btype bs = blockRuns (map (lineKind an) [0..<length (lines an)])
     \<and> joinWith '' '' (entriesOfKind Paragraph bs)
         = joinWith '' '' (linesOfKind an Paragraph (length (lines an)))"
proof -
  obtain st where st: "stateAfter an (length (lines an)) = Inr st"
    using stateAfter_defined [of "length (lines an)" an] by auto
  then have "assembleBlocks an = Inr (finalBlocks st)"
    by (simp add: assembleBlocks_stateAfter)
  moreover have "entriesOfKind ListBlock (finalBlocks st)
                   = linesOfKind an ListBlock (length (lines an))"
    using stateAfter_entries [OF _ st] by simp
  moreover have "map renderBlock (blocksOfKind ListBlock (finalBlocks st))
         = map (\<lambda>b. Inr (joinWith [LF] (blines b))) (blocksOfKind ListBlock (finalBlocks st))"
    by (simp add: blocksOfKind_def renderBlock_def)
  moreover have "map btype (finalBlocks st)
                   = blockRuns (map (lineKind an) [0..<length (lines an)])"
    using stateAfter_kinds [OF _ st] by simp
  moreover have "joinWith '' '' (entriesOfKind Paragraph (finalBlocks st))
         = joinWith '' '' (linesOfKind an Paragraph (length (lines an)))"
    using stateAfter_paragraph_text [OF _ st] by simp
  ultimately show ?thesis by blast
qed

theorem list_blocks_not_merged_witness:
  "assembleBlocks (TextStructureAnalyzer listSample)
     = Inr [\<lparr> btype = Paragraph, blines = [''Some opening text.''], level = None \<rparr>,
            \<lparr> btype = ListBlock, blines = [''- item one.'', ''- item two.''], level = None \<rparr>,
            \<lparr> btype = Paragraph, blines = [''Closing text here.''], level = None \<rparr>]
   \<and> linesOfKind (TextStructureAnalyzer listSample) ListBlock
         (length (lines (TextStructureAnalyzer listSample)))
       = [''- item one.'', ''- item two.'']
   \<and> blockRuns (map (lineKind (TextStructureAnalyzer listSample))
                  [0..<length (lines (TextStructureAnalyzer listSample))])
       = [Paragraph, ListBlock, Paragraph]"
proof -
  let ?an = "TextStructureAnalyzer listSample"
  let ?bs = "[\<lparr> btype = Paragraph, blines = [''Some opening text.''], level = None \<rparr>,
            \<lparr> btype = ListBlock, blines = [''- item one.'', ''- item two.''], level = None \<rparr>,
            \<lparr> btype = Paragraph, blines = [''Closing text here.''], level = None \<rparr>]"
  have a: "assembleBlocks ?an = Inr ?bs" by code_simp
  from list_blocks_not_merged [of ?an] a
  have "entriesOfKind ListBlock ?bs = linesOfKind ?an ListBlock (length (lines ?an))"
    and "map btype ?bs = blockRuns (map (lineKind ?an) [0..<length (lines ?an)])"
    by auto
  moreover have "entriesOfKind ListBlock ?bs = [''- item one.'', ''- item two.'']"
    by (simp add: entriesOfKind_def blocksOfKind_def)
  moreover have "map btype ?bs = [Paragraph, ListBlock, Paragraph]" by simp
  ultimately show ?thesis using a by simp
qed

subsection \<open>The merge policy on a second pass\<close>

lemma entries_finalBlocks: "entries st = concat (map blines (finalBlocks st))"
  by (simp add: entries_def finalBlocks_def)







subsection \<open>The all-caps factor\<close>





subsection \<open>Polling the OCR backend\<close>

lemma poll_again:
  "replies n = PollData s d \<Longrightarrow> s \<noteq> ''succeeded'' \<Longrightarrow>
   pollUntilSucceeded replies n = pollUntilSucceeded replies (Suc n)"
  by (subst pollUntilSucceeded.simps) simp

lemma returns_needs_terminal:
  assumes "pollUntilSucceeded r k = Some z"
  shows "\<exists>m\<ge>k. r m = PollThrows \<or> (\<exists>d. r m = PollData ''succeeded'' d)"
proof (rule pollUntilSucceeded.raw_induct
    [where P = "\<lambda>r k z. \<exists>m\<ge>k. r m = PollThrows \<or> (\<exists>d. r m = PollData ''succeeded'' d)",
      OF _ assms])
  fix f :: "(nat \<Rightarrow> poll_reply) \<Rightarrow> nat \<Rightarrow> (error + ocr_page list option) option"
    and r k z
  assume IH: "\<And>r k z. f r k = Some z \<Longrightarrow>
               \<exists>m\<ge>k. r m = PollThrows \<or> (\<exists>d. r m = PollData ''succeeded'' d)"
    and eq: "(case r k of
                PollThrows \<Rightarrow> Some (Inl TransportError)
              | PollData status payload \<Rightarrow>
                  if status = ''succeeded'' then Some (Inr payload) else f r (Suc k)) = Some z"
  show "\<exists>m\<ge>k. r m = PollThrows \<or> (\<exists>d. r m = PollData ''succeeded'' d)"
  proof (cases "r k")
    case PollThrows
    then show ?thesis by auto
  next
    case (PollData s d)
    show ?thesis
    proof (cases "s = ''succeeded''")
      case True
      with PollData show ?thesis by auto
    next
      case False
      with PollData eq have "f r (Suc k) = Some z" by simp
      from IH [OF this] obtain m where "Suc k \<le> m"
        and "r m = PollThrows \<or> (\<exists>d. r m = PollData ''succeeded'' d)" by auto
      then show ?thesis by (intro exI [of _ m]) auto
    qed
  qed
qed

lemma never_succeeded:
  assumes "\<And>m. n \<le> m \<Longrightarrow> \<exists>s d. replies m = PollData s d \<and> s \<noteq> ''succeeded''"
  shows "pollUntilSucceeded replies n = None"
proof (rule ccontr)
  assume "pollUntilSucceeded replies n \<noteq> None"
  then obtain y where y: "pollUntilSucceeded replies n = Some y" by auto
  from returns_needs_terminal [OF y] assms show False by fastforce
qed

lemma poll_part0_failed:
  "replies n = PollData ''failed'' d \<Longrightarrow> pollUntilDone_part0 replies n = Some (Inl OcrFailed)"
  by (subst pollUntilDone_part0.simps) simp

text \<open>
  C2. When a status request is answered with \<^verbatim>\<open>failed\<close>, the loop of \<^verbatim>\<open>extractAzure\<close> in
  \<^verbatim>\<open>src/index.js\<close> does not stop: it tests the status for \<^verbatim>\<open>succeeded\<close> only and polls
  again, and when no later answer is \<^verbatim>\<open>succeeded\<close> or a transport error it never
  returns. The loop of the revision \<^verbatim>\<open>src/unnamed/part_000\<close> stops at the same answer
  and fails the document with the error \<^verbatim>\<open>Azure OCR Failed\<close>, which is what the claim
  asks for.
\<close>

theorem failed_status_is_ignored:
  assumes "replies n = PollData ''failed'' payload"
  shows "pollUntilSucceeded replies n = pollUntilSucceeded replies (Suc n)
       \<and> ((\<forall>m. n \<le> m \<longrightarrow> (\<exists>s d. replies m = PollData s d \<and> s \<noteq> ''succeeded''))
            \<longrightarrow> pollUntilSucceeded replies n = None)
       \<and> pollUntilDone_part0 replies n = Some (Inl OcrFailed)"
proof (intro conjI impI)
  show "pollUntilSucceeded replies n = pollUntilSucceeded replies (Suc n)"
    using assms poll_again [of replies n "''failed''" payload] by simp
next
  assume "\<forall>m. n \<le> m \<longrightarrow> (\<exists>s d. replies m = PollData s d \<and> s \<noteq> ''succeeded'')"
  then show "pollUntilSucceeded replies n = None" by (intro never_succeeded) blast
next
  show "pollUntilDone_part0 replies n = Some (Inl OcrFailed)"
    using assms poll_part0_failed [of replies n payload] by simp
qed

theorem failed_status_is_ignored_witness:
  "poll failedOcrEnv ''scan.pdf'' 0 = PollData ''failed'' None
   \<and> pollUntilSucceeded (poll failedOcrEnv ''scan.pdf'') 0 = None
   \<and> extractAzure failedOcrEnv ''scan.pdf'' = None
   \<and> processSinglePDF failedOcrEnv ''scan.pdf'' = None
   \<and> runQueue [''scan.pdf'', ''next.pdf''] 1 (processSinglePDF failedOcrEnv) = []
   \<and> extractAzure_part0 failedOcrEnv ''scan.pdf'' = Some (Inl OcrFailed)"
proof -
  let ?r = "poll failedOcrEnv ''scan.pdf''"
  have h: "?r 0 = PollData ''failed'' None" by (simp add: failedOcrEnv_def)
  have always: "\<forall>m. 0 \<le> m \<longrightarrow> (\<exists>s d. ?r m = PollData s d \<and> s \<noteq> ''succeeded'')"
    by (simp add: failedOcrEnv_def)
  from failed_status_is_ignored [of ?r 0 None] h always
  have never: "pollUntilSucceeded ?r 0 = None"
    and stop: "pollUntilDone_part0 ?r 0 = Some (Inl OcrFailed)"
    by blast+
  have sub: "submit failedOcrEnv ''scan.pdf'' = Inr ()" by (simp add: failedOcrEnv_def)
  have az: "extractAzure failedOcrEnv ''scan.pdf'' = None"
    by (simp add: extractAzure_def sub never)
  have az0: "extractAzure_part0 failedOcrEnv ''scan.pdf'' = Some (Inl OcrFailed)"
    by (simp add: extractAzure_part0_def sub stop)
  have loc: "extractPdfParse failedOcrEnv ''scan.pdf'' = Inr [\<lparr> page = 1, pageText = [] \<rparr>]"
    by (simp add: extractPdfParse_def failedOcrEnv_def)
  have ps: "processSinglePDF failedOcrEnv ''scan.pdf'' = None"
    by (simp add: processSinglePDF_def loc usable_def MIN_CHARS_PER_PAGE_def viaOcr_def az)
  have rq: "runQueue [''scan.pdf'', ''next.pdf''] 1 (processSinglePDF failedOcrEnv) = []"
    by (simp add: runQueue_def ps)
  from h never az ps rq az0 show ?thesis by blast
qed

subsection \<open>The choice of the extraction backend\<close>

lemma length_trim_le: "length (trim s) \<le> length s"
proof -
  have "length (trim s) = length (dropWhile js_space (rev (dropWhile js_space s)))"
    by (simp add: trim_def)
  also have "\<dots> \<le> length (rev (dropWhile js_space s))" by (rule length_dropWhile_le)
  also have "\<dots> \<le> length s" by (simp add: length_dropWhile_le)
  finally show ?thesis .
qed

lemma length_filter_mono:
  "(\<And>x. P x \<Longrightarrow> Q x) \<Longrightarrow> length (filter P xs) \<le> length (filter Q xs)"
  by (induction xs) auto

lemma usable_part0_half:
  assumes "2 * length (filter (\<lambda>p. MIN_CHARS_PER_PAGE \<le> length (pageText p)) ps) \<le> length ps"
  shows "\<not> usable_part0 ps"
proof -
  let ?t = "length (filter (\<lambda>p. MIN_CHARS_PER_PAGE \<le> length (trim (pageText p))) ps)"
  let ?r = "length (filter (\<lambda>p. MIN_CHARS_PER_PAGE \<le> length (pageText p)) ps)"
  have "?t \<le> ?r"
    using length_trim_le by (intro length_filter_mono) (meson order_trans)
  with assms have le: "2 * ?t \<le> length ps" by simp
  show ?thesis
  proof (cases "length ps = 0")
    case True
    then show ?thesis by (simp add: usable_part0_def)
  next
    case False
    have "(of_nat ?t :: rat) * 2 \<le> of_nat (length ps)"
      using le by (metis mult.commute of_nat_le_iff of_nat_mult of_nat_numeral)
    then have "\<not> (1 / 2 :: rat) < of_nat ?t / of_nat (length ps)"
      using False by (simp add: field_simps)
    with False show ?thesis by (simp add: usable_part0_def)
  qed
qed

lemma usable_iff: "usable ps \<longleftrightarrow> (\<exists>p \<in> set ps. MIN_CHARS_PER_PAGE \<le> length (pageText p))"
  by (simp add: usable_def list_ex_iff)

text \<open>
  C1 (as amended). Let the override flag be off. In \<^verbatim>\<open>src/index.js\<close> the local result is
  usable as soon as one page has at least \<^verbatim>\<open>MIN_CHARS_PER_PAGE\<close> characters of raw text:
  then the transcript is written from the local pages with the method \<^verbatim>\<open>pdf-parse\<close>,
  and the OCR backend is invoked only when no page reaches the threshold. In the revision
  \<^verbatim>\<open>src/unnamed/part_000\<close>, for every document of which at most half of the pages have
  raw text of at least \<^verbatim>\<open>MIN_CHARS_PER_PAGE\<close> characters (5 of 10 included, and a
  document without pages), the local result is not usable and the extraction goes to
  the OCR backend.
\<close>

theorem ocr_fallback_threshold:
  assumes "\<not> ocrOverride e"
  shows "(extractPdfParse e file = Inr ps \<longrightarrow>
            processSinglePDF e file =
              (if \<exists>p \<in> set ps. MIN_CHARS_PER_PAGE \<le> length (pageText p)
               then Some (writeTranscript e file ''pdf-parse'' ps)
               else viaOcr e file))
       \<and> (extractPdfParse_part0 e file = Inr ps0
            \<and> 2 * length (filter (\<lambda>p. MIN_CHARS_PER_PAGE \<le> length (pageText p)) ps0)
                \<le> length ps0 \<longrightarrow>
            \<not> usable_part0 ps0 \<and> extraction_part0 e file = viaOcr_part0 e file)"
  using assms usable_part0_half [of ps0]
  by (auto simp: processSinglePDF_def extraction_part0_def usable_iff)

theorem ocr_fallback_threshold_witness:
  "\<not> ocrOverride halfPagesEnv
   \<and> extractPdfParse_part0 halfPagesEnv ''half.pdf'' = Inr halfPages
   \<and> 2 * length (filter (\<lambda>p. MIN_CHARS_PER_PAGE \<le> length (pageText p)) halfPages)
       \<le> length halfPages
   \<and> \<not> usable_part0 halfPages
   \<and> extraction_part0 halfPagesEnv ''half.pdf'' = Some (Inl TransportError)
   \<and> extractPdfParse failedOcrEnv ''scan.pdf'' = Inr [\<lparr> page = 1, pageText = [] \<rparr>]
   \<and> processSinglePDF failedOcrEnv ''scan.pdf'' = viaOcr failedOcrEnv ''scan.pdf''"
proof -
  have h0: "\<not> ocrOverride halfPagesEnv" by (simp add: halfPagesEnv_def)
  have h1: "extractPdfParse_part0 halfPagesEnv ''half.pdf'' = Inr halfPages" by code_simp
  have h2: "2 * length (filter (\<lambda>p. MIN_CHARS_PER_PAGE \<le> length (pageText p)) halfPages)
       \<le> length halfPages" by code_simp
  have v: "viaOcr_part0 halfPagesEnv ''half.pdf'' = Some (Inl TransportError)"
    by (simp add: viaOcr_part0_def extractAzure_part0_def halfPagesEnv_def)
  have g0: "\<not> ocrOverride failedOcrEnv" by (simp add: failedOcrEnv_def)
  have g1: "extractPdfParse failedOcrEnv ''scan.pdf'' = Inr [\<lparr> page = 1, pageText = [] \<rparr>]"
    by (simp add: extractPdfParse_def failedOcrEnv_def)
  from ocr_fallback_threshold [OF h0, of "''half.pdf''" _ halfPages] h1 h2 v
  have a: "\<not> usable_part0 halfPages
           \<and> extraction_part0 halfPagesEnv ''half.pdf'' = Some (Inl TransportError)"
    by simp
  from ocr_fallback_threshold [OF g0, of "''scan.pdf''" "[\<lparr> page = 1, pageText = [] \<rparr>]"] g1
  have b: "processSinglePDF failedOcrEnv ''scan.pdf'' = viaOcr failedOcrEnv ''scan.pdf''"
    by (simp add: MIN_CHARS_PER_PAGE_def)
  from h0 h1 h2 a g1 b show ?thesis by blast
qed

text \<open>
  In \<^verbatim>\<open>src/index.js\<close>, ten local pages of which exactly five reach the threshold are
  usable: the transcript is written from them, and the OCR backend (which would have
  failed here) is not asked.
\<close>

theorem ocr_fallback_threshold_counterexample:
  "extractPdfParse halfPagesEnv ''half.pdf'' = Inr halfPages
   \<and> length halfPages = 10
   \<and> length (filter (\<lambda>p. MIN_CHARS_PER_PAGE \<le> length (pageText p)) halfPages) = 5
   \<and> usable halfPages
   \<and> processSinglePDF halfPagesEnv ''half.pdf''
       = Some (writeTranscript halfPagesEnv ''half.pdf'' ''pdf-parse'' halfPages)
   \<and> viaOcr halfPagesEnv ''half.pdf''
       = Some ([(''./output/half.error.txt'', ErrorRecord TransportError)], Returned)"
proof -
  have a: "extractPdfParse halfPagesEnv ''half.pdf'' = Inr halfPages" by code_simp
  have b: "length halfPages = 10" by code_simp
  have c: "length (filter (\<lambda>p. MIN_CHARS_PER_PAGE \<le> length (pageText p)) halfPages) = 5"
    by code_simp
  have d: "usable halfPages" by code_simp
  have e: "\<not> ocrOverride halfPagesEnv" by (simp add: halfPagesEnv_def)
  have f: "processSinglePDF halfPagesEnv ''half.pdf''
       = Some (writeTranscript halfPagesEnv ''half.pdf'' ''pdf-parse'' halfPages)"
    by (simp add: processSinglePDF_def a d e)
  have g: "viaOcr halfPagesEnv ''half.pdf''
       = Some ([(''./output/half.error.txt'', ErrorRecord TransportError)], Returned)"
    by code_simp
  from a b c d f g show ?thesis by blast
qed

subsection \<open>Cleaned pages\<close>

lemma cleanPage_defined: "\<exists>q. cleanPage idx p = Inr q"
proof -
  obtain out where "cleanNaturalText (Some (pageText p)) = Inr out"
    using cleanNaturalText_defined by blast
  then show ?thesis by (simp add: cleanPage_def)
qed

lemma cleanPage_page_irrelevant: "cleanPage idx (p \<lparr> page := n \<rparr>) = cleanPage idx p"
  by (simp add: cleanPage_def)

lemma cleanPage_number: "cleanPage idx p = Inr q \<Longrightarrow> pageNumber q = Suc idx"
  by (auto simp: cleanPage_def split: sum.splits)

lemma cleanEach_defined:
  "\<exists>qs. cleanEach idx ps = Inr qs \<and> length qs = length ps
        \<and> (\<forall>i<length ps. cleanPage (idx + i) (ps ! i) = Inr (qs ! i))"
proof (induction ps arbitrary: idx)
  case Nil
  then show ?case by simp
next
  case (Cons p ps)
  obtain q where q: "cleanPage idx p = Inr q" using cleanPage_defined by blast
  obtain qs where qs: "cleanEach (Suc idx) ps = Inr qs" "length qs = length ps"
    "\<forall>i<length ps. cleanPage (Suc idx + i) (ps ! i) = Inr (qs ! i)"
    using Cons.IH [of "Suc idx"] by blast
  have "\<forall>i<length (p # ps). cleanPage (idx + i) ((p # ps) ! i) = Inr ((q # qs) ! i)"
  proof (intro allI impI)
    fix i assume "i < length (p # ps)"
    then show "cleanPage (idx + i) ((p # ps) ! i) = Inr ((q # qs) ! i)"
      using q qs(3) by (cases i) auto
  qed
  with q qs(1,2) show ?case by simp
qed

lemma cleanEach_numbers:
  "cleanEach idx ps = Inr qs \<Longrightarrow> map pageNumber qs = [Suc idx..<Suc idx + length ps]"
proof (induction ps arbitrary: idx qs)
  case Nil
  then show ?case by simp
next
  case (Cons p ps)
  then obtain q qs' where q: "cleanPage idx p = Inr q"
    and qs': "cleanEach (Suc idx) ps = Inr qs'" and eq: "qs = q # qs'"
    by (auto split: sum.splits)
  have "map pageNumber qs' = [Suc (Suc idx)..<Suc (Suc idx) + length ps]"
    using Cons.IH [OF qs'] .
  moreover have "[Suc idx..<Suc idx + length (p # ps)]
      = Suc idx # [Suc (Suc idx)..<Suc (Suc idx) + length ps]"
    by (subst upt_conv_Cons) simp_all
  ultimately show ?case using cleanPage_number [OF q] eq by simp
qed

lemma cleanEach_page_irrelevant:
  "cleanEach idx (map (\<lambda>p. p \<lparr> page := f p \<rparr>) ps) = cleanEach idx ps"
  by (induction ps arbitrary: idx) (simp_all add: cleanPage_page_irrelevant split: sum.splits)

lemma clean_pageSevenLine: "cleanNaturalText (Some pageSevenLine) = Inr pageSevenLine"
  by code_simp

lemma strip_pageSevenLine: "stripArtifacts pageSevenLine = pageSevenLine"
  by code_simp

lemma keep_pageSevenLine: "MIN_CHARS_PER_PAGE \<le> length (trim pageSevenLine)"
  by code_simp

lemma cleanPages_pageSevenLine:
  "cleanPages [\<lparr> page = n, pageText = pageSevenLine \<rparr>]
     = Inr [\<lparr> pageNumber = 1, outText = pageSevenLine \<rparr>]"
  by (simp add: cleanPages_def cleanPage_def clean_pageSevenLine strip_pageSevenLine
      keep_pageSevenLine)

text \<open>
  C5. The claim asks that the page number of a page extracted by the OCR backend is the
  number the backend reported. In \<^verbatim>\<open>src/index.js\<close> it is not: \<^verbatim>\<open>extractAzure\<close> carries
  the reported number in the field \<^verbatim>\<open>page\<close>, but \<^verbatim>\<open>cleanPages\<close> does not read that
  field. Its result is the same whatever the field holds, and the page numbers it
  assigns are the array positions 1, 2, ... of the pages before the filter. The revision
  \<^verbatim>\<open>src/unnamed/part_000\<close> keeps the field \<^verbatim>\<open>page\<close> of every page it keeps.
\<close>

theorem page_numbers_are_positions:
  "cleanPages (map (\<lambda>p. p \<lparr> page := f p \<rparr>) ps) = cleanPages ps
   \<and> (\<exists>qs. cleanEach 0 ps = Inr qs
         \<and> map pageNumber qs = [1..<Suc (length ps)]
         \<and> cleanPages ps = Inr (filter (\<lambda>q. MIN_CHARS_PER_PAGE \<le> length (trim (outText q))) qs))
   \<and> map page (processedPages_part0 c ps)
       = map page (filter (\<lambda>p. 10 < length (c (pageText p))) ps)"
proof (intro conjI)
  show "cleanPages (map (\<lambda>p. p \<lparr> page := f p \<rparr>) ps) = cleanPages ps"
    by (simp add: cleanPages_def cleanEach_page_irrelevant)
next
  obtain qs where qs: "cleanEach 0 ps = Inr qs" using cleanEach_defined by blast
  moreover have "map pageNumber qs = [1..<Suc (length ps)]"
    using cleanEach_numbers [OF qs] by simp
  moreover have "cleanPages ps
      = Inr (filter (\<lambda>q. MIN_CHARS_PER_PAGE \<le> length (trim (outText q))) qs)"
    using qs by (simp add: cleanPages_def)
  ultimately show "\<exists>qs. cleanEach 0 ps = Inr qs
         \<and> map pageNumber qs = [1..<Suc (length ps)]
         \<and> cleanPages ps = Inr (filter (\<lambda>q. MIN_CHARS_PER_PAGE \<le> length (trim (outText q))) qs)"
    by blast
next
  show "map page (processedPages_part0 c ps)
       = map page (filter (\<lambda>p. 10 < length (c (pageText p))) ps)"
    by (induction ps) (simp_all add: processedPages_part0_def)
qed

theorem page_numbers_are_positions_witness:
  "extractAzure pageSevenEnv ''scan.pdf''
     = Some (Inr [\<lparr> page = 7, pageText = pageSevenLine \<rparr>])
   \<and> cleanPages [\<lparr> page = 7, pageText = pageSevenLine \<rparr>]
       = Inr [\<lparr> pageNumber = 1, outText = pageSevenLine \<rparr>]
   \<and> cleanPages [\<lparr> page = 1, pageText = pageSevenLine \<rparr>]
       = cleanPages [\<lparr> page = 7, pageText = pageSevenLine \<rparr>]
   \<and> processSinglePDF pageSevenEnv ''scan.pdf''
       = Some ([(''./output/scan.txt'',
                 Transcript ''scan.pdf'' ''azure''
                   [\<lparr> pageNumber = 1, outText = pageSevenLine \<rparr>])], Returned)
   \<and> map page (processedPages_part0 (\<lambda>t. t) [\<lparr> page = 7, pageText = pageSevenLine \<rparr>]) = [7]"
proof -
  let ?p = "\<lparr> page = 7, pageText = pageSevenLine \<rparr>"
  have pl: "pollUntilSucceeded (poll pageSevenEnv ''scan.pdf'') 0
              = Some (Inr (Some [\<lparr> reportedPageNumber = 7, content = [pageSevenLine] \<rparr>]))"
    by (subst pollUntilSucceeded.simps) (simp add: pageSevenEnv_def)
  have sub: "submit pageSevenEnv ''scan.pdf'' = Inr ()" by (simp add: pageSevenEnv_def)
  have az: "extractAzure pageSevenEnv ''scan.pdf'' = Some (Inr [?p])"
    by (simp add: extractAzure_def sub pl assemblePages_def)
  have cp: "cleanPages [?p] = Inr [\<lparr> pageNumber = 1, outText = pageSevenLine \<rparr>]"
    by (rule cleanPages_pageSevenLine)
  have loc: "extractPdfParse pageSevenEnv ''scan.pdf'' = Inr [\<lparr> page = 1, pageText = [] \<rparr>]"
    by (simp add: extractPdfParse_def pageSevenEnv_def)
  have wr: "canWrite pageSevenEnv (transcriptPath ''scan.pdf'')"
    by (simp add: pageSevenEnv_def)
  have tp: "transcriptPath ''scan.pdf'' = ''./output/scan.txt''" by code_simp
  have ps: "processSinglePDF pageSevenEnv ''scan.pdf''
       = Some ([(''./output/scan.txt'',
                 Transcript ''scan.pdf'' ''azure''
                   [\<lparr> pageNumber = 1, outText = pageSevenLine \<rparr>])], Returned)"
    using wr
    by (simp add: processSinglePDF_def loc usable_def MIN_CHARS_PER_PAGE_def viaOcr_def az
        writeTranscript_def cp tp)
  from page_numbers_are_positions [of "\<lambda>p. 1" "[?p]" "\<lambda>t. t"]
  have eq: "cleanPages [\<lparr> page = 1, pageText = pageSevenLine \<rparr>] = cleanPages [?p]"
    and p0: "map page (processedPages_part0 (\<lambda>t. t) [?p])
               = map page (filter (\<lambda>p. 10 < length (pageText p)) [?p])"
    by simp_all
  have "10 < length pageSevenLine" by code_simp
  with p0 have "map page (processedPages_part0 (\<lambda>t. t) [?p]) = [7]" by simp
  with az cp eq ps show ?thesis by blast
qed

text \<open>
  C6 (as amended). For every list of input pages, \<^verbatim>\<open>cleanPages\<close> of \<^verbatim>\<open>src/index.js\<close> does
  not fail, cleans every page, and keeps a cleaned page if and only if its text, with the
  white space at both ends trimmed off, has at least \<^verbatim>\<open>MIN_CHARS_PER_PAGE\<close> (50)
  characters. The revision \<^verbatim>\<open>src/unnamed/part_000\<close> keeps a page if and only if its
  processed text has more than 10 characters.
\<close>

theorem page_kept_iff_trimmed_length:
  "(\<exists>qs out. cleanEach 0 ps = Inr qs \<and> length qs = length ps
       \<and> (\<forall>i<length ps. cleanPage i (ps ! i) = Inr (qs ! i))
       \<and> cleanPages ps = Inr out
       \<and> (\<forall>q. q \<in> set out \<longleftrightarrow>
               q \<in> set qs \<and> MIN_CHARS_PER_PAGE \<le> length (trim (outText q))))
   \<and> (\<forall>p. p \<in> set (processedPages_part0 c ps) \<longleftrightarrow>
           (\<exists>r \<in> set ps. p = r \<lparr> pageText := c (pageText r) \<rparr>
                          \<and> 10 < length (c (pageText r))))"
proof (intro conjI)
  obtain qs where qs: "cleanEach 0 ps = Inr qs" "length qs = length ps"
    "\<forall>i<length ps. cleanPage (0 + i) (ps ! i) = Inr (qs ! i)"
    using cleanEach_defined [of 0 ps] by blast
  let ?out = "filter (\<lambda>q. MIN_CHARS_PER_PAGE \<le> length (trim (outText q))) qs"
  have "cleanPages ps = Inr ?out" using qs(1) by (simp add: cleanPages_def)
  moreover have "\<forall>q. q \<in> set ?out \<longleftrightarrow>
               q \<in> set qs \<and> MIN_CHARS_PER_PAGE \<le> length (trim (outText q))"
    by simp
  ultimately show "\<exists>qs out. cleanEach 0 ps = Inr qs \<and> length qs = length ps
       \<and> (\<forall>i<length ps. cleanPage i (ps ! i) = Inr (qs ! i))
       \<and> cleanPages ps = Inr out
       \<and> (\<forall>q. q \<in> set out \<longleftrightarrow>
               q \<in> set qs \<and> MIN_CHARS_PER_PAGE \<le> length (trim (outText q)))"
    using qs by auto
next
  show "\<forall>p. p \<in> set (processedPages_part0 c ps) \<longleftrightarrow>
           (\<exists>r \<in> set ps. p = r \<lparr> pageText := c (pageText r) \<rparr>
                          \<and> 10 < length (c (pageText r)))"
    by (auto simp: processedPages_part0_def)
qed

theorem page_kept_iff_trimmed_length_witness:
  "cleanPages [\<lparr> page = 2, pageText = pageSevenLine \<rparr>]
     = Inr [\<lparr> pageNumber = 1, outText = pageSevenLine \<rparr>]
   \<and> MIN_CHARS_PER_PAGE \<le> length (trim (outText \<lparr> pageNumber = 1, outText = pageSevenLine \<rparr>))
   \<and> \<lparr> page = 1, pageText = ''hello world'' \<rparr>
       \<in> set (processedPages_part0 (\<lambda>t. t) [\<lparr> page = 1, pageText = ''hello world'' \<rparr>])"
proof -
  let ?ps = "[\<lparr> page = 2, pageText = pageSevenLine \<rparr>]"
  let ?q = "\<lparr> pageNumber = 1, outText = pageSevenLine \<rparr>"
  have cp: "cleanPages ?ps = Inr [?q]" by (rule cleanPages_pageSevenLine)
  from page_kept_iff_trimmed_length [of ?ps "\<lambda>t. t"]
  obtain qs out where o: "cleanPages ?ps = Inr out"
    and iff: "\<forall>q. q \<in> set out \<longleftrightarrow>
                q \<in> set qs \<and> MIN_CHARS_PER_PAGE \<le> length (trim (outText q))"
    by blast
  from o cp have "?q \<in> set out" by auto
  with iff have k: "MIN_CHARS_PER_PAGE \<le> length (trim (outText ?q))" by blast
  let ?h = "\<lparr> page = 1, pageText = ''hello world'' \<rparr>"
  from page_kept_iff_trimmed_length [of "[?h]" "\<lambda>t. t"]
  have "?h \<in> set (processedPages_part0 (\<lambda>t. t) [?h]) \<longleftrightarrow>
          (\<exists>r \<in> set [?h]. ?h = r \<lparr> pageText := pageText r \<rparr> \<and> 10 < length (pageText r))"
    by blast
  then have "?h \<in> set (processedPages_part0 (\<lambda>t. t) [?h])" by simp
  with cp k show ?thesis by blast
qed

text \<open>
  The untrimmed length does not decide. Cleaning the sample page removes the running
  footer and leaves a blank followed by 49 characters: the cleaned text has 50
  characters, its trimmed form has 49, and \<^verbatim>\<open>cleanPages\<close> drops the page.
\<close>

theorem page_kept_iff_trimmed_length_counterexample:
  "cleanPage 0 footerPage
     = Inr \<lparr> pageNumber = 1, outText = '' '' @ replicate 48 CHR ''x'' @ ''.'' \<rparr>
   \<and> length ('' '' @ replicate 48 CHR ''x'' @ ''.'') = 50
   \<and> length (trim ('' '' @ replicate 48 CHR ''x'' @ ''.'')) = 49
   \<and> cleanPages [footerPage] = Inr []"
  by code_simp

subsection \<open>One artifact for every document\<close>

lemma cleanPages_defined: "\<exists>out. cleanPages ps = Inr out"
proof -
  obtain qs where "cleanEach 0 ps = Inr qs" using cleanEach_defined by blast
  then show ?thesis by (simp add: cleanPages_def)
qed

lemma handleFailure_writable:
  "canWrite e (errorPath file) \<Longrightarrow>
   handleFailure e file err = ([(errorPath file, ErrorRecord err)], Returned)"
  by (simp add: handleFailure_def)

lemma artifactFor_error: "artifactFor file (errorPath file, ErrorRecord err)"
  by (simp add: artifactFor_def)

lemma writeTranscript_one:
  assumes "canWrite e (errorPath file)"
  shows "\<exists>w. writeTranscript e file method ps = ([w], Returned) \<and> artifactFor file w"
proof -
  obtain out where out: "cleanPages ps = Inr out" using cleanPages_defined by blast
  show ?thesis
  proof (cases "canWrite e (transcriptPath file)")
    case True
    with out have "writeTranscript e file method ps
        = ([(transcriptPath file, Transcript file method out)], Returned)"
      by (simp add: writeTranscript_def)
    then show ?thesis by (simp add: artifactFor_def)
  next
    case False
    with out assms have "writeTranscript e file method ps
        = ([(errorPath file, ErrorRecord WriteError)], Returned)"
      by (simp add: writeTranscript_def handleFailure_def)
    then show ?thesis by (simp add: artifactFor_def)
  qed
qed

lemma processSinglePDF_one:
  assumes "canWrite e (errorPath file)" and "processSinglePDF e file = Some r"
  shows "\<exists>w. r = ([w], Returned) \<and> artifactFor file w"
proof (cases "extractPdfParse e file")
  case (Inl err)
  with assms show ?thesis
    by (auto simp: processSinglePDF_def handleFailure_def artifactFor_def)
next
  case (Inr ps)
  show ?thesis
  proof (cases "\<not> usable ps \<or> ocrOverride e")
    case False
    with Inr assms(2) have "r = writeTranscript e file ''pdf-parse'' ps"
      by (auto simp: processSinglePDF_def)
    with writeTranscript_one [OF assms(1)] show ?thesis by metis
  next
    case True
    with Inr assms(2) have v: "viaOcr e file = Some r"
      by (auto simp: processSinglePDF_def)
    show ?thesis
    proof (cases "extractAzure e file")
      case None
      with v show ?thesis by (simp add: viaOcr_def)
    next
      case (Some res)
      show ?thesis
      proof (cases res)
        case (Inl err)
        with Some v assms(1) show ?thesis
          by (auto simp: viaOcr_def handleFailure_def artifactFor_def)
      next
        case (Inr ocrPages)
        with Some v have "r = writeTranscript e file ''azure'' ocrPages"
          by (simp add: viaOcr_def)
        with writeTranscript_one [OF assms(1)] show ?thesis by metis
      qed
    qed
  qed
qed

lemma terminal_returns:
  assumes "k \<le> m"
    and "r m = PollThrows \<or> (\<exists>payload. r m = PollData ''succeeded'' payload)"
  shows "\<exists>y. pollUntilSucceeded r k = Some y"
  using assms(1)
proof (induction "m - k" arbitrary: k)
  case 0
  then have "k = m" by simp
  with assms(2) show ?case
    by (subst pollUntilSucceeded.simps) auto
next
  case (Suc d)
  then have lt: "k < m" by simp
  show ?case
  proof (cases "r k")
    case PollThrows
    then show ?thesis by (subst pollUntilSucceeded.simps) simp
  next
    case (PollData s payload)
    show ?thesis
    proof (cases "s = ''succeeded''")
      case True
      with PollData show ?thesis by (subst pollUntilSucceeded.simps) simp
    next
      case False
      have "d = m - Suc k" using Suc.hyps(2) by simp
      moreover have "Suc k \<le> m" using lt by simp
      ultimately have "\<exists>y. pollUntilSucceeded r (Suc k) = Some y" by (rule Suc.hyps(1))
      with poll_again [of r k s payload] PollData False show ?thesis by simp
    qed
  qed
qed

lemma pollingEnds_returns:
  assumes "pollingEnds replies"
  shows "\<exists>y. pollUntilSucceeded replies 0 = Some y"
proof -
  from assms obtain m
    where "replies m = PollThrows \<or> (\<exists>payload. replies m = PollData ''succeeded'' payload)"
    by (auto simp: pollingEnds_def)
  then show ?thesis using terminal_returns [of 0 m replies] by simp
qed

lemma processSinglePDF_returns:
  assumes "sentToOcr e file \<longrightarrow> pollingEnds (poll e file)"
  shows "\<exists>r. processSinglePDF e file = Some r"
proof (cases "extractPdfParse e file")
  case (Inl err)
  then show ?thesis by (simp add: processSinglePDF_def)
next
  case (Inr ps)
  show ?thesis
  proof (cases "\<not> usable ps \<or> ocrOverride e")
    case False
    with Inr show ?thesis by (auto simp: processSinglePDF_def)
  next
    case True
    have "\<exists>res. extractAzure e file = Some res"
    proof (cases "submit e file")
      case (Inl err)
      then show ?thesis by (simp add: extractAzure_def)
    next
      case (Inr u)
      with \<open>extractPdfParse e file = Inr ps\<close> True have "sentToOcr e file"
        by (simp add: sentToOcr_def)
      with assms obtain y where "pollUntilSucceeded (poll e file) 0 = Some y"
        using pollingEnds_returns by blast
      with Inr show ?thesis by (cases y) (simp_all add: extractAzure_def)
    qed
    then obtain res where "extractAzure e file = Some res" by blast
    then have "\<exists>r. viaOcr e file = Some r"
      by (cases res) (simp_all add: viaOcr_def)
    with Inr True show ?thesis by (auto simp: processSinglePDF_def)
  qed
qed

lemma drainQueue_all:
  assumes "0 < live"
    and "\<forall>f \<in> set items. f \<noteq> [] \<and> canWrite e (errorPath f)
            \<and> (sentToOcr e f \<longrightarrow> pollingEnds (poll e f))"
  shows "list_all2 artifactFor items (drainQueue (processSinglePDF e) live items)"
  using assms(2)
proof (induction items)
  case Nil
  then show ?case by simp
next
  case (Cons f items)
  then obtain r where r: "processSinglePDF e f = Some r"
    using processSinglePDF_returns [of e f] by auto
  from Cons.prems have w: "canWrite e (errorPath f)" and ne: "f \<noteq> []" by auto
  obtain a where a: "r = ([a], Returned)" "artifactFor f a"
    using processSinglePDF_one [OF w r] by blast
  have "list_all2 artifactFor items (drainQueue (processSinglePDF e) live items)"
    using Cons by simp
  with a r ne assms(1) show ?case by simp
qed

text \<open>
  C3 (as amended). Take a batch of documents with non-empty names, run by at least one
  worker, such that for every document the error record can be written and, if the
  document reaches the polling loop of the OCR backend, some status request is answered
  with \<^verbatim>\<open>succeeded\<close> or fails in transport. Then every run of \<^verbatim>\<open>processSinglePDF\<close>
  returns, and every document of the batch is processed and yields exactly one written
  artifact, in queue order: its transcript at its transcript path or an error record at
  its error path, never both. A failure of the local extraction, a failure of the OCR
  backend, and a failed write of the transcript are each caught and produce the error
  record of that document and nothing else.
\<close>

theorem one_artifact_per_document:
  assumes "0 < limit"
    and "\<forall>f \<in> set items. f \<noteq> [] \<and> canWrite e (errorPath f)
            \<and> (sentToOcr e f \<longrightarrow> pollingEnds (poll e f))"
  shows "list_all2 artifactFor items (runQueue items limit (processSinglePDF e))
       \<and> (\<forall>f \<in> set items. \<exists>w. processSinglePDF e f = Some ([w], Returned) \<and> artifactFor f w)
       \<and> (\<forall>f \<in> set items. \<forall>err.
             extractPdfParse e f = Inl err \<longrightarrow>
             processSinglePDF e f = Some ([(errorPath f, ErrorRecord err)], Returned))
       \<and> (\<forall>f \<in> set items. \<forall>ps err.
             extractPdfParse e f = Inr ps \<and> (\<not> usable ps \<or> ocrOverride e)
             \<and> extractAzure e f = Some (Inl err) \<longrightarrow>
             processSinglePDF e f = Some ([(errorPath f, ErrorRecord err)], Returned))
       \<and> (\<forall>f \<in> set items. \<forall>ps.
             extractPdfParse e f = Inr ps \<and> usable ps \<and> \<not> ocrOverride e
             \<and> \<not> canWrite e (transcriptPath f) \<longrightarrow>
             processSinglePDF e f = Some ([(errorPath f, ErrorRecord WriteError)], Returned))"
proof (intro conjI ballI allI impI)
  show "list_all2 artifactFor items (runQueue items limit (processSinglePDF e))"
    unfolding runQueue_def using assms by (rule drainQueue_all)
next
  fix f assume f: "f \<in> set items"
  with assms(2) obtain r where r: "processSinglePDF e f = Some r"
    using processSinglePDF_returns [of e f] by auto
  from f assms(2) have "canWrite e (errorPath f)" by simp
  from processSinglePDF_one [OF this r] r
  show "\<exists>w. processSinglePDF e f = Some ([w], Returned) \<and> artifactFor f w" by auto
next
  fix f err assume "f \<in> set items" and "extractPdfParse e f = Inl err"
  with assms(2) show "processSinglePDF e f = Some ([(errorPath f, ErrorRecord err)], Returned)"
    by (simp add: processSinglePDF_def handleFailure_def)
next
  fix f ps err
  assume "f \<in> set items"
    and "extractPdfParse e f = Inr ps \<and> (\<not> usable ps \<or> ocrOverride e)
         \<and> extractAzure e f = Some (Inl err)"
  with assms(2) show "processSinglePDF e f = Some ([(errorPath f, ErrorRecord err)], Returned)"
    by (auto simp: processSinglePDF_def viaOcr_def handleFailure_def)
next
  fix f ps
  assume f: "f \<in> set items"
    and h: "extractPdfParse e f = Inr ps \<and> usable ps \<and> \<not> ocrOverride e
         \<and> \<not> canWrite e (transcriptPath f)"
  obtain out where "cleanPages ps = Inr out" using cleanPages_defined by blast
  with assms(2) f h
  show "processSinglePDF e f = Some ([(errorPath f, ErrorRecord WriteError)], Returned)"
    by (simp add: processSinglePDF_def writeTranscript_def handleFailure_def)
qed

theorem one_artifact_per_document_witness:
  "0 < (1 :: nat)
   \<and> list_all (\<lambda>f. f \<noteq> [] \<and> canWrite mixedEnv (errorPath f)
                    \<and> (sentToOcr mixedEnv f \<longrightarrow> pollingEnds (poll mixedEnv f)))
        [''a.pdf'', ''b.pdf'', ''c.pdf'']
   \<and> sentToOcr mixedEnv ''c.pdf''
   \<and> pollingEnds (poll mixedEnv ''c.pdf'')
   \<and> list_all2 artifactFor [''a.pdf'', ''b.pdf'', ''c.pdf'']
        (runQueue [''a.pdf'', ''b.pdf'', ''c.pdf''] 1 (processSinglePDF mixedEnv))
   \<and> runQueue [''a.pdf'', ''b.pdf'', ''c.pdf''] 1 (processSinglePDF mixedEnv)
       = [(''./output/a.error.txt'', ErrorRecord ReadError),
          (''./output/b.txt'',
           Transcript ''b.pdf'' ''pdf-parse'' [\<lparr> pageNumber = 1, outText = pageSevenLine \<rparr>]),
          (''./output/c.txt'',
           Transcript ''c.pdf'' ''azure'' [\<lparr> pageNumber = 1, outText = pageSevenLine \<rparr>])]"
proof -
  have pa: "processSinglePDF mixedEnv ''a.pdf''
              = Some ([(''./output/a.error.txt'', ErrorRecord ReadError)], Returned)"
    by code_simp
  have lb: "extractPdfParse mixedEnv ''b.pdf'' = Inr [\<lparr> page = 1, pageText = pageSevenLine \<rparr>]"
    by (simp add: extractPdfParse_def mixedEnv_def)
  have "MIN_CHARS_PER_PAGE \<le> length pageSevenLine" by code_simp
  then have ub: "usable [\<lparr> page = n, pageText = pageSevenLine \<rparr>]" for n
    by (simp add: usable_def)
  have tb: "transcriptPath ''b.pdf'' = ''./output/b.txt''" by code_simp
  have tc: "transcriptPath ''c.pdf'' = ''./output/c.txt''" by code_simp
  have wr: "canWrite mixedEnv p" for p by (simp add: mixedEnv_def)
  have no: "\<not> ocrOverride mixedEnv" by (simp add: mixedEnv_def)
  have pb: "processSinglePDF mixedEnv ''b.pdf''
              = Some ([(''./output/b.txt'',
                   Transcript ''b.pdf'' ''pdf-parse''
                     [\<lparr> pageNumber = 1, outText = pageSevenLine \<rparr>])], Returned)"
    by (simp add: processSinglePDF_def lb ub no writeTranscript_def cleanPages_pageSevenLine
        tb wr)
  have lc: "extractPdfParse mixedEnv ''c.pdf'' = Inr [\<lparr> page = 1, pageText = [] \<rparr>]"
    by (simp add: extractPdfParse_def mixedEnv_def)
  have sc: "submit mixedEnv ''c.pdf'' = Inr ()" by (simp add: mixedEnv_def)
  have r0: "poll mixedEnv ''c.pdf'' 0 = PollData ''running'' None"
    by (simp add: mixedEnv_def)
  have r1: "poll mixedEnv ''c.pdf'' (Suc 0)
              = PollData ''succeeded''
                  (Some [\<lparr> reportedPageNumber = 1, content = [pageSevenLine] \<rparr>])"
    by (simp add: mixedEnv_def)
  have p1: "pollUntilSucceeded (poll mixedEnv ''c.pdf'') (Suc 0)
              = Some (Inr (Some [\<lparr> reportedPageNumber = 1, content = [pageSevenLine] \<rparr>]))"
    by (subst pollUntilSucceeded.simps) (simp add: r1)
  have p0: "pollUntilSucceeded (poll mixedEnv ''c.pdf'') 0
              = Some (Inr (Some [\<lparr> reportedPageNumber = 1, content = [pageSevenLine] \<rparr>]))"
    by (subst pollUntilSucceeded.simps) (simp add: r0 p1)
  have az: "extractAzure mixedEnv ''c.pdf'' = Some (Inr [\<lparr> page = 1, pageText = pageSevenLine \<rparr>])"
    by (simp add: extractAzure_def sc p0 assemblePages_def)
  have pc: "processSinglePDF mixedEnv ''c.pdf''
              = Some ([(''./output/c.txt'',
                   Transcript ''c.pdf'' ''azure''
                     [\<lparr> pageNumber = 1, outText = pageSevenLine \<rparr>])], Returned)"
    by (simp add: processSinglePDF_def lc usable_def MIN_CHARS_PER_PAGE_def viaOcr_def az
        writeTranscript_def cleanPages_pageSevenLine tc wr)
  have sa: "\<not> sentToOcr mixedEnv ''a.pdf''"
    by (simp add: sentToOcr_def extractPdfParse_def mixedEnv_def)
  have sb: "\<not> sentToOcr mixedEnv ''b.pdf''"
    by (simp add: sentToOcr_def lb ub no)
  have sentc: "sentToOcr mixedEnv ''c.pdf''"
    by (simp add: sentToOcr_def lc sc usable_def MIN_CHARS_PER_PAGE_def)
  have endc: "pollingEnds (poll mixedEnv ''c.pdf'')"
    unfolding pollingEnds_def using r1 by blast
  have h: "\<forall>f \<in> set [''a.pdf'', ''b.pdf'', ''c.pdf'']. f \<noteq> []
             \<and> canWrite mixedEnv (errorPath f)
             \<and> (sentToOcr mixedEnv f \<longrightarrow> pollingEnds (poll mixedEnv f))"
    using sa sb endc wr by simp
  have one: "0 < (1 :: nat)" by simp
  from one_artifact_per_document [OF one h]
  have l: "list_all2 artifactFor [''a.pdf'', ''b.pdf'', ''c.pdf'']
        (runQueue [''a.pdf'', ''b.pdf'', ''c.pdf''] 1 (processSinglePDF mixedEnv))"
    by blast
  have rq: "runQueue [''a.pdf'', ''b.pdf'', ''c.pdf''] 1 (processSinglePDF mixedEnv)
       = [(''./output/a.error.txt'', ErrorRecord ReadError),
          (''./output/b.txt'',
           Transcript ''b.pdf'' ''pdf-parse'' [\<lparr> pageNumber = 1, outText = pageSevenLine \<rparr>]),
          (''./output/c.txt'',
           Transcript ''c.pdf'' ''azure'' [\<lparr> pageNumber = 1, outText = pageSevenLine \<rparr>])]"
    by (simp add: runQueue_def pa pb pc)
  from h have "list_all (\<lambda>f. f \<noteq> [] \<and> canWrite mixedEnv (errorPath f)
                    \<and> (sentToOcr mixedEnv f \<longrightarrow> pollingEnds (poll mixedEnv f)))
        [''a.pdf'', ''b.pdf'', ''c.pdf'']"
    by (simp add: list_all_iff)
  with one sentc endc l rq show ?thesis by blast
qed

text \<open>
  Without the condition on the error record the batch is not isolated from a failure. The
  \<^verbatim>\<open>catch\<close> block of \<^verbatim>\<open>processSinglePDF\<close> writes the error record unguarded: when that
  write fails too, the call rejects, the document has no artifact, and its worker leaves
  the loop. With one worker the second document is never taken, although it would have
  produced its artifact.
\<close>

theorem one_artifact_per_document_counterexample:
  "processSinglePDF lockedRecordEnv ''a.pdf'' = Some ([], Rejected WriteError)
   \<and> processSinglePDF lockedRecordEnv ''b.pdf''
       = Some ([(''./output/b.error.txt'', ErrorRecord ReadError)], Returned)
   \<and> runQueue [''a.pdf'', ''b.pdf''] 1 (processSinglePDF lockedRecordEnv) = []"
  by code_simp

end
